theory Spec2Isabelle
  imports Complex_Main "HOL-Library.AList" "HOL-Library.Char_ord" "HOL-Library.List_Lexorder"
begin

section \<open>Vcdb: a TF-IDF vector database (\<^verbatim>\<open>vc-database/vcdb.py\<close>)\<close>

text \<open>
  The development embeds the functions of \<^verbatim>\<open>vcdb.py\<close> as HOL functions.

  \<^item> A Python \<^verbatim>\<open>str\<close> is a \<^typ>\<open>string\<close>; a \<^typ>\<open>char\<close> stands for one code point in
    \<^verbatim>\<open>U+0000..U+00FF\<close>, and the character classes below are the ones Python uses on that
    range. Strings are compared by code point, as \<^verbatim>\<open>sorted\<close> does.
  \<^item> A Python \<^verbatim>\<open>float\<close> is a \<^typ>\<open>real\<close>, and every floating-point operation of the
    source is taken from a record of operations, the arithmetic, that each function
    receives as its first argument. Two arithmetics are defined: \<open>ieee\<close>, the operations
    rounded to IEEE-754 doubles, which is what the source computes, and \<open>exact\<close>, the
    operations of the real numbers, which is what the source computes before rounding.
    Infinities and nan are not represented, so a theorem about \<open>ieee\<close>, or about every
    arithmetic, speaks about computations that do not overflow.
  \<^item> A Python \<^verbatim>\<open>dict\<close> is an association list in insertion order, written with
    \<^const>\<open>AList.update\<close> (a new key goes to the end, an old key keeps its place) and read
    with \<^const>\<open>map_of\<close>.
  \<^item> An exception is a value \<open>Inl e\<close> of the result type \<open>error + 'a\<close>.
\<close>

subsection \<open>Exceptions\<close>

datatype error =
    KeyError
  | IndexError
  | ValueError
  | FileNotFoundError
  | JSONDecodeError
  | TypeError
  | NotPlainText

text \<open>\<open>[f(x) for x in xs]\<close> where \<open>f\<close> may raise: the first exception ends the loop.\<close>

fun traverse :: "('a \<Rightarrow> error + 'b) \<Rightarrow> 'a list \<Rightarrow> error + 'b list" where
  "traverse f [] = Inr []"
| "traverse f (x # xs) =
     (case f x of
        Inl e \<Rightarrow> Inl e
      | Inr y \<Rightarrow> (case traverse f xs of Inl e \<Rightarrow> Inl e | Inr ys \<Rightarrow> Inr (y # ys)))"

subsection \<open>Strings\<close>

definition code :: "char \<Rightarrow> nat" where
  "code c = of_char c"

text \<open>\<open>str.isspace\<close>, which is also what \<open>str.strip()\<close> removes and what \<open>\s\<close> matches.\<close>

definition isspace :: "char \<Rightarrow> bool" where
  "isspace c \<longleftrightarrow>
     (9 \<le> code c \<and> code c \<le> 13) \<or> (28 \<le> code c \<and> code c \<le> 32) \<or> code c = 133 \<or> code c = 160"

text \<open>\<open>str.lower\<close> on one character: \<open>A-Z\<close>, and the Latin-1 capitals except the
  multiplication sign.\<close>

definition lower_char :: "char \<Rightarrow> char" where
  "lower_char c =
     (if (65 \<le> code c \<and> code c \<le> 90) \<or> (192 \<le> code c \<and> code c \<le> 222 \<and> code c \<noteq> 215)
      then char_of (code c + 32) else c)"

definition lower :: "string \<Rightarrow> string" where
  "lower s = map lower_char s"

text \<open>The class \<open>\w\<close> of \<open>re\<close> on \<open>str\<close>: alphanumeric characters and the underscore.\<close>

definition isword :: "char \<Rightarrow> bool" where
  "isword c \<longleftrightarrow>
     (48 \<le> code c \<and> code c \<le> 57) \<or> (65 \<le> code c \<and> code c \<le> 90) \<or> code c = 95
     \<or> (97 \<le> code c \<and> code c \<le> 122)
     \<or> code c = 170 \<or> code c = 178 \<or> code c = 179 \<or> code c = 181
     \<or> (185 \<le> code c \<and> code c \<le> 190 \<and> code c \<noteq> 187)
     \<or> (192 \<le> code c \<and> code c \<noteq> 215 \<and> code c \<noteq> 247)"

text \<open>\<open>s.strip()\<close>\<close>

definition strip :: "string \<Rightarrow> string" where
  "strip s = rev (dropWhile isspace (rev (dropWhile isspace s)))"

text \<open>\<open>re.findall(r'\w+', s)\<close>: the maximal runs of word characters, left to right.
  The first argument is the run being read.\<close>

fun findall_words :: "string \<Rightarrow> string \<Rightarrow> string list" where
  "findall_words cur [] = (if cur = [] then [] else [cur])"
| "findall_words cur (c # cs) =
     (if isword c then findall_words (cur @ [c]) cs
      else if cur = [] then findall_words [] cs
      else cur # findall_words [] cs)"

text \<open>\<open>s.split("\n\n")\<close>: cut at each blank line, scanning from the left.\<close>

fun split_blank :: "string \<Rightarrow> string list" where
  "split_blank (a # b # cs) =
     (if a = CHR 0x0A \<and> b = CHR 0x0A then [] # split_blank cs
      else (case split_blank (b # cs) of
              [] \<Rightarrow> [[a]]
            | p # ps \<Rightarrow> (a # p) # ps))"
| "split_blank s = [s]"

text \<open>\<open>s.split(c)\<close> for a one-character separator.\<close>

fun split_char :: "char \<Rightarrow> string \<Rightarrow> string list" where
  "split_char c [] = [[]]"
| "split_char c (x # xs) =
     (if x = c then [] # split_char c xs
      else (case split_char c xs of
              [] \<Rightarrow> [[x]]
            | p # ps \<Rightarrow> (x # p) # ps))"

text \<open>\<open>s.split("|", 1)[0]\<close>: the text before the first bar, or all of it.\<close>

definition first_field :: "string \<Rightarrow> string" where
  "first_field s = takeWhile (\<lambda>c. c \<noteq> CHR ''|'') s"

text \<open>\<open>sep.join(xs)\<close>\<close>

fun join :: "string \<Rightarrow> string list \<Rightarrow> string" where
  "join sep [] = []"
| "join sep [x] = x"
| "join sep (x # y # ys) = x @ sep @ join sep (y # ys)"

text \<open>\<open>str(n)\<close> for a non-negative integer.\<close>

fun str_nat :: "nat \<Rightarrow> string" where
  "str_nat n =
     (if n < 10 then [char_of (48 + n)]
      else str_nat (n div 10) @ [char_of (48 + n mod 10)])"

declare str_nat.simps [simp del]

subsection \<open>Dictionaries\<close>

type_synonym ('k, 'v) dict = "('k \<times> 'v) list"

text \<open>\<open>{k: v for ...}\<close> over a list of pairs: a repeated key keeps its first place and
  its last value.\<close>

definition dict_of :: "('k \<times> 'v) list \<Rightarrow> ('k, 'v) dict" where
  "dict_of kvs = fold (\<lambda>(k, v) d. AList.update k v d) kvs []"

text \<open>\<open>d[k]\<close>\<close>

definition getitem :: "('k, 'v) dict \<Rightarrow> 'k \<Rightarrow> error + 'v" where
  "getitem d k = (case map_of d k of None \<Rightarrow> Inl KeyError | Some v \<Rightarrow> Inr v)"

text \<open>\<open>d.get(k, dflt)\<close>\<close>

definition get_default :: "('k, 'v) dict \<Rightarrow> 'k \<Rightarrow> 'v \<Rightarrow> 'v" where
  "get_default d k dflt = (case map_of d k of None \<Rightarrow> dflt | Some v \<Rightarrow> v)"

text \<open>\<open>xs[i]\<close> for \<open>i \<ge> 0\<close>\<close>

definition list_item :: "'a list \<Rightarrow> nat \<Rightarrow> error + 'a" where
  "list_item xs i = (if i < length xs then Inr (xs ! i) else Inl IndexError)"

text \<open>\<open>xs[:k]\<close> for a Python integer \<open>k\<close>: a negative \<open>k\<close> counts from the end.\<close>

definition slice_to :: "int \<Rightarrow> 'a list \<Rightarrow> 'a list" where
  "slice_to k xs = (if 0 \<le> k then take (nat k) xs else take (nat (int (length xs) + k)) xs)"

subsection \<open>Floating-point arithmetic\<close>

text \<open>
  The floating-point operations of the source: \<open>x * y\<close>, \<open>x / y\<close> (also of two integers),
  \<open>math.sqrt\<close>, \<open>math.log\<close> on a positive argument, and the built-in \<open>sum\<close> of a sequence
  of floats. \<open>set_order\<close> is the order in which a set of keys is iterated (line 128 sums
  over a set, and a rounded sum depends on the order of its terms). Negation, comparison
  and the test for zero are exact on doubles and need no entry.
\<close>

record arith =
  fmul :: "real \<Rightarrow> real \<Rightarrow> real"
  fdiv :: "real \<Rightarrow> real \<Rightarrow> real"
  fsqrt :: "real \<Rightarrow> real"
  flog :: "real \<Rightarrow> real"
  fsum :: "real list \<Rightarrow> real"
  set_order :: "string list \<Rightarrow> string list"

text \<open>The arithmetic of the real numbers: no rounding.\<close>

definition exact :: arith where
  "exact = \<lparr>fmul = (*), fdiv = (/), fsqrt = sqrt, flog = ln, fsum = sum_list,
            set_order = (\<lambda>ks. ks)\<rparr>"

text \<open>
  IEEE-754 binary64 with rounding to nearest, ties to even: \<open>binary64 x\<close> is the double
  nearest to \<open>x\<close>, with 53 significant bits. The exponent is not bounded, so \<open>binary64\<close>
  agrees with the hardware when the result is a normal number, and knows no overflow and
  no subnormal number. In \<open>ieee\<close> every operation rounds the exact result, \<open>sum\<close> adds from
  the left, starting from 0, and a set of keys is iterated in the order given (Python
  fixes neither; the inputs evaluated below give the same doubles in every order).
  \<open>math.log\<close> is taken as correctly rounded; of its values only \<open>log(1.0) = 0.0\<close> and the
  sign of \<open>log(2.0)\<close> are used below.
\<close>

definition round_even :: "real \<Rightarrow> int" where
  "round_even y =
     (let f = \<lfloor>y\<rfloor>
      in if y - of_int f < 1 / 2 then f
         else if 1 / 2 < y - of_int f then f + 1
         else if even f then f else f + 1)"

definition binary64 :: "real \<Rightarrow> real" where
  "binary64 x =
     (if x = 0 then 0
      else (let e = \<lfloor>log 2 \<bar>x\<bar>\<rfloor> - 52
            in of_int (round_even (x / 2 powr (of_int e))) * 2 powr (of_int e)))"

definition ieee :: arith where
  "ieee = \<lparr>fmul = (\<lambda>x y. binary64 (x * y)), fdiv = (\<lambda>x y. binary64 (x / y)),
           fsqrt = (\<lambda>x. binary64 (sqrt x)), flog = (\<lambda>x. binary64 (ln x)),
           fsum = (\<lambda>xs. foldl (\<lambda>a x. binary64 (a + x)) 0 xs),
           set_order = (\<lambda>ks. ks)\<rparr>"

subsection \<open>Tokenizer\<close>

definition tokenize :: "string \<Rightarrow> string list" where
  "tokenize text = findall_words [] (lower text)"

subsection \<open>Vectorizer\<close>

type_synonym sparse = "(string, real) dict"

record tfidf =
  vocab :: "string list"
  idf :: "(string, real) dict"
  vectors :: "sparse list"

text \<open>\<open>math.log\<close> raises on a non-positive argument.\<close>

definition math_log :: "arith \<Rightarrow> real \<Rightarrow> error + real" where
  "math_log A x = (if 0 < x then Inr (flog A x) else Inl ValueError)"

text \<open>The loop \<open>for w in doc: tf[w] = tf.get(w, 0) + 1\<close>.\<close>

definition count_tf :: "string list \<Rightarrow> (string, nat) dict" where
  "count_tf doc = fold (\<lambda>w tf. AList.update w (get_default tf w 0 + 1) tf) doc []"

text \<open>One entry of the comprehension that builds \<open>idf\<close>.\<close>

definition idf_item ::
  "arith \<Rightarrow> nat \<Rightarrow> (string, nat) dict \<Rightarrow> string \<Rightarrow> error + string \<times> real" where
  "idf_item A N df w =
     (case getitem df w of
        Inl e \<Rightarrow> Inl e
      | Inr c \<Rightarrow>
          if c \<noteq> 0
          then (case math_log A (fdiv A (real N) (real c)) of
                  Inl e \<Rightarrow> Inl e
                | Inr x \<Rightarrow> Inr (w, x))
          else Inr (w, 0))"

text \<open>One entry of the comprehension that builds the vector of a document with
  \<open>n\<close> tokens: \<open>str(word_idx[w]): (tf[w] / len(doc)) * idf[w]\<close>.\<close>

definition weight_item ::
  "arith \<Rightarrow> (string, nat) dict \<Rightarrow> (string, real) dict \<Rightarrow> (string, nat) dict \<Rightarrow> nat
     \<Rightarrow> string \<Rightarrow> error + string \<times> real" where
  "weight_item A word_idx idf_d tf n w =
     (case getitem word_idx w of
        Inl e \<Rightarrow> Inl e
      | Inr i \<Rightarrow>
          (case getitem tf w of
             Inl e \<Rightarrow> Inl e
           | Inr c \<Rightarrow>
               (case getitem idf_d w of
                  Inl e \<Rightarrow> Inl e
                | Inr x \<Rightarrow> Inr (str_nat i, fmul A (fdiv A (real c) (real n)) x))))"

text \<open>The body of the loop over \<open>docs\<close>.\<close>

definition doc_vector ::
  "arith \<Rightarrow> (string, nat) dict \<Rightarrow> (string, real) dict \<Rightarrow> string list \<Rightarrow> error + sparse" where
  "doc_vector A word_idx idf_d doc =
     (if doc = [] then Inr []
      else
        (let tf = count_tf doc in
         case traverse (weight_item A word_idx idf_d tf (length doc)) (map fst tf) of
           Inl e \<Rightarrow> Inl e
         | Inr kvs \<Rightarrow> Inr (dict_of kvs)))"

definition build_tfidf :: "arith \<Rightarrow> string list \<Rightarrow> error + tfidf" where
  "build_tfidf A entries_in =
     (let docs = map tokenize entries_in;
          vocab_l = sort (remdups (concat docs));
          word_idx = dict_of (zip vocab_l [0 ..< length vocab_l]);
          N = length docs;
          df = dict_of (map (\<lambda>w. (w, length (filter (\<lambda>d. w \<in> set d) docs))) vocab_l)
      in case traverse (idf_item A N df) vocab_l of
           Inl e \<Rightarrow> Inl e
         | Inr idf_kvs \<Rightarrow>
             (let idf_d = dict_of idf_kvs in
              case traverse (doc_vector A word_idx idf_d) docs of
                Inl e \<Rightarrow> Inl e
              | Inr vs \<Rightarrow> Inr \<lparr>vocab = vocab_l, idf = idf_d, vectors = vs\<rparr>))"

subsection \<open>Cosine similarity\<close>

text \<open>Lines 129 and 130: the magnitude of a vector. The argument of \<open>math.sqrt\<close> is a
  sum of squares, which is not negative, so \<open>math.sqrt\<close> does not raise.\<close>

definition magnitude :: "arith \<Rightarrow> sparse \<Rightarrow> real" where
  "magnitude A v =
     (if v \<noteq> [] then fsqrt A (fsum A (map (\<lambda>x. fmul A x x) (map snd v))) else 0)"

text \<open>The division of line 131 has a divisor other than 0 in doubles too: a magnitude
  that is not 0 is the square root of a positive double, at least \<open>2 ^ -537\<close>, and the
  product of two such numbers does not round to 0.\<close>

definition cosine_sim :: "arith \<Rightarrow> sparse \<Rightarrow> sparse \<Rightarrow> real" where
  "cosine_sim A v1 v2 =
     (let keys = set_order A (remdups (map fst v1 @ map fst v2));
          dot = fsum A (map (\<lambda>k. fmul A (get_default v1 k 0) (get_default v2 k 0)) keys);
          n1 = magnitude A v1;
          n2 = magnitude A v2
      in if n1 \<noteq> 0 \<and> n2 \<noteq> 0 then fdiv A dot (fmul A n1 n2) else 0)"

subsection \<open>Module registry: the manifest text\<close>

type_synonym module_map = "(string, nat) dict"

definition parse_op_name :: "string \<Rightarrow> string" where
  "parse_op_name e = strip (first_field e)"

text \<open>\<open>[e.strip() for e in content.split("\n\n") if e.strip()]\<close>\<close>

definition records :: "string \<Rightarrow> string list" where
  "records content = filter (\<lambda>e. e \<noteq> []) (map strip (split_blank content))"

text \<open>The body of the loop of lines 34 to 37.\<close>

definition register :: "nat \<times> string \<Rightarrow> module_map \<Rightarrow> module_map" where
  "register = (\<lambda>(module_id, e) m.
                 (let name = strip (first_field e)
                  in if name \<noteq> [] then AList.update name module_id m else m))"

text \<open>Lines 30 to 38 of \<open>load_module_id_map\<close>: the map read from the manifest text.\<close>

definition module_map_of :: "string \<Rightarrow> module_map" where
  "module_map_of content = fold register (enumerate 0 (records content)) []"

subsection \<open>Result enricher\<close>

text \<open>The group of the first match of \<open>Parameters?:\s*([^\.]+)\<close>, ignoring case, when the
  match starts at the head of the text. After the colon, \<open>\s*\<close> takes the whole run of
  spaces and the group the characters up to the next period; when that leaves the group
  empty the matcher gives the last space back to the group.\<close>

definition params_group :: "string \<Rightarrow> string option" where
  "params_group s =
     (let ws = takeWhile isspace s;
          g = takeWhile (\<lambda>c. c \<noteq> CHR ''.'') (dropWhile isspace s)
      in if g \<noteq> [] then Some g else if ws \<noteq> [] then Some [last ws] else None)"

definition match_params_here :: "string \<Rightarrow> string option" where
  "match_params_here s =
     (if lower (take 9 s) = ''parameter''
      then (case drop 9 s of
              [] \<Rightarrow> None
            | c # cs \<Rightarrow>
                if lower_char c = CHR ''s''
                then (case cs of
                        [] \<Rightarrow> None
                      | d # ds \<Rightarrow> if d = CHR '':'' then params_group ds else None)
                else if c = CHR '':'' then params_group cs
                else None)
      else None)"

text \<open>\<open>re.search\<close>: the leftmost position where the pattern matches.\<close>

fun search_params :: "string \<Rightarrow> string option" where
  "search_params [] = match_params_here []"
| "search_params (c # cs) =
     (case match_params_here (c # cs) of
        Some g \<Rightarrow> Some g
      | None \<Rightarrow> search_params cs)"

definition parse_params :: "string \<Rightarrow> string list" where
  "parse_params e =
     (case search_params e of
        None \<Rightarrow> []
      | Some raw \<Rightarrow> filter (\<lambda>p. p \<noteq> []) (map strip (split_char CHR '','' raw)))"

definition make_signature :: "nat option \<Rightarrow> nat \<Rightarrow> string list \<Rightarrow> string" where
  "make_signature mid_opt opc ps =
     (let mid = (case mid_opt of None \<Rightarrow> ''?'' | Some m \<Rightarrow> str_nat m)
      in if ps \<noteq> [] then mid @ ''.'' @ str_nat opc @ ''('' @ join '', '' ps @ '')''
         else mid @ ''.'' @ str_nat opc @ ''()'')"

text \<open>The dictionary \<open>enrich_result\<close> returns; \<open>mod_name\<close> is its key \<open>module_name\<close>.\<close>

record result =
  entry :: string
  opcode :: nat
  similarity :: real
  database :: string
  kind :: string
  mod_name :: string
  module_id :: "nat option"
  op_name :: string
  params :: "string list"
  signature :: string

definition enrich_result :: "string \<Rightarrow> nat \<Rightarrow> real \<Rightarrow> string \<Rightarrow> module_map \<Rightarrow> result" where
  "enrich_result e opc sim db mm =
     (let opn = parse_op_name e;
          knd = (if db = ''vector-categories'' then ''category'' else ''op'');
          mid = map_of mm (if knd = ''category'' then opn else db);
          mname = (if knd = ''category'' then opn else db);
          ps = (if knd = ''category'' then [] else parse_params e);
          sig = (if knd = ''category'' then [] else make_signature mid opc ps)
      in \<lparr>entry = e, opcode = opc, similarity = sim, database = db, kind = knd,
          mod_name = mname, module_id = mid, op_name = opn, params = ps,
          signature = sig\<rparr>)"

subsection \<open>Files\<close>

text \<open>
  A path is the list of its components. Directories are implicit: a directory with no
  file below it and a missing directory are the same state. Failures of the operating
  system other than a missing file are left out, and so is what \<open>print\<close> writes.
\<close>

type_synonym path = "string list"

text \<open>The dictionary \<open>vectorize_file\<close> hands to \<open>json.dump\<close>.\<close>

record index = tfidf +
  entries :: "string list"
  metadata :: "(string, string) dict"

text \<open>
  Modelled from the spec: the persisted index document and the two library calls that
  write and read it, \<open>json.dump\<close> and \<open>json.load\<close>, whose code is not part of the
  sources. The specification of the index store (section 4.3) has \<open>load\<close> return what
  \<open>persist\<close> was given, so a file written by \<open>json.dump\<close> is kept as the value
  \<open>json.load\<close> reads back from it, and its text is not represented.

  What \<open>json.load\<close> returns is any JSON value. \<open>_search\<close> only subscripts it with the keys
  \<open>vocab\<close>, \<open>idf\<close>, \<open>vectors\<close> and \<open>entries\<close>, so a value is either an object, where each of
  these keys is present or absent, or something else (a list, a string, a number),
  which no key subscripts. A key that is present with a value of another type than the
  vectorizer writes is left out of the model.

  A text file carries, next to its text, what \<open>json.load\<close> makes of that text: \<open>None\<close>
  when it raises \<open>JSONDecodeError\<close>. Deciding which texts are JSON is the library's part.
\<close>

record document =
  doc_vocab :: "string list option"
  doc_idf :: "(string, real) dict option"
  doc_vectors :: "sparse list option"
  doc_entries :: "string list option"
  doc_metadata :: "(string, string) dict option"

datatype jsonval = JObject document | JOther

datatype content = Plain string "jsonval option" | Document jsonval

type_synonym filesystem = "(path, content) dict"

text \<open>The JSON value of an index.\<close>

definition document_of :: "index \<Rightarrow> jsonval" where
  "document_of d =
     JObject \<lparr>doc_vocab = Some (vocab d), doc_idf = Some (idf d),
              doc_vectors = Some (vectors d), doc_entries = Some (entries d),
              doc_metadata = Some (metadata d)\<rparr>"

text \<open>\<open>open(p).read()\<close>. The text of a written document is not represented, so reading
  one as text ends in \<open>NotPlainText\<close>, an outcome of the model and not of Python.\<close>

definition read_text :: "filesystem \<Rightarrow> path \<Rightarrow> error + string" where
  "read_text files p =
     (case map_of files p of
        None \<Rightarrow> Inl FileNotFoundError
      | Some (Plain s j) \<Rightarrow> Inr s
      | Some (Document d) \<Rightarrow> Inl NotPlainText)"

text \<open>Modelled from the spec: \<open>json.load(open(p))\<close>, a library call, which raises when
  the file is missing or its text is not JSON and otherwise returns the value read.\<close>

definition json_load :: "filesystem \<Rightarrow> path \<Rightarrow> error + jsonval" where
  "json_load files p =
     (case map_of files p of
        None \<Rightarrow> Inl FileNotFoundError
      | Some (Plain s None) \<Rightarrow> Inl JSONDecodeError
      | Some (Plain s (Some j)) \<Rightarrow> Inr j
      | Some (Document j) \<Rightarrow> Inr j)"

text \<open>Modelled from the spec: \<open>json.dump(data, open(p, 'w'))\<close>, a library call, which
  creates or replaces the file; the file then holds the document of \<open>data\<close>.\<close>

definition json_dump :: "filesystem \<Rightarrow> path \<Rightarrow> index \<Rightarrow> filesystem" where
  "json_dump files p data = AList.update p (Document (document_of data)) files"

text \<open>\<open>db[key]\<close> for a JSON value \<open>db\<close>: the selector \<open>field\<close> reads the key.\<close>

definition subscript :: "jsonval \<Rightarrow> (document \<Rightarrow> 'a option) \<Rightarrow> error + 'a" where
  "subscript db field =
     (case db of
        JOther \<Rightarrow> Inl TypeError
      | JObject d \<Rightarrow> (case field d of None \<Rightarrow> Inl KeyError | Some x \<Rightarrow> Inr x))"

text \<open>\<open>Path.name\<close> and \<open>Path.stem\<close>: the stem drops the last suffix, unless the last dot
  is the first or the last character of the name.\<close>

definition path_name :: "path \<Rightarrow> string" where
  "path_name p = (if p = [] then [] else last p)"

definition stem_of :: "string \<Rightarrow> string" where
  "stem_of name =
     (let after = takeWhile (\<lambda>c. c \<noteq> CHR ''.'') (rev name)
      in if CHR ''.'' \<in> set name \<and> after \<noteq> [] \<and> Suc (length after) < length name
         then take (length name - Suc (length after)) name
         else name)"

definition path_stem :: "path \<Rightarrow> string" where
  "path_stem p = stem_of (path_name p)"

text \<open>\<open>name.replace('.txt', '.dat')\<close>\<close>

fun replace_txt :: "string \<Rightarrow> string" where
  "replace_txt (a # b # c # d # s) =
     (if [a, b, c, d] = ''.txt'' then ''.dat'' @ replace_txt s
      else a # replace_txt (b # c # d # s))"
| "replace_txt s = s"

text \<open>\<open>dir.glob('*.dat')\<close>: the files of the directory whose name ends in \<open>.dat\<close>, in
  the order the file system lists them; nothing when the directory is missing.\<close>

definition glob_dat :: "filesystem \<Rightarrow> path \<Rightarrow> path list" where
  "glob_dat files dir =
     filter (\<lambda>p. p \<noteq> [] \<and> butlast p = dir \<and> 4 \<le> length (last p)
                 \<and> drop (length (last p) - 4) (last p) = ''.dat'')
            (map fst files)"

subsection \<open>Module registry: the cached loader\<close>

text \<open>
  The state of the process: the files, the directory of the module (\<open>base\<close>,
  \<open>Path(__file__).parent\<close>) and the one slot of \<open>lru_cache(maxsize=1)\<close>, holding the
  argument and the result of the last call that returned. An argument \<open>None\<close> is the
  call with no argument.
\<close>

record world =
  fs :: filesystem
  base :: path
  cache :: "(path option \<times> module_map) option"

text \<open>Lines 24 to 26: the path of the manifest. An empty \<open>source_dir\<close> is falsy, like
  no argument.\<close>

definition manifest_path :: "world \<Rightarrow> path option \<Rightarrow> path" where
  "manifest_path w source_dir =
     (case source_dir of
        None \<Rightarrow> base w @ [''source'']
      | Some d \<Rightarrow> if d \<noteq> [] then d else base w @ [''source'']) @ [''vector-categories.txt'']"

definition load_module_id_map :: "world \<Rightarrow> path option \<Rightarrow> (error + module_map) \<times> world" where
  "load_module_id_map w source_dir =
     (let hit = (case cache w of None \<Rightarrow> None
                 | Some (arg, m) \<Rightarrow> if arg = source_dir then Some m else None)
      in case hit of
           Some m \<Rightarrow> (Inr m, w)
         | None \<Rightarrow>
             (let cat_path = manifest_path w source_dir
              in if map_of (fs w) cat_path = None
                 then (Inr [], w\<lparr>cache := Some (source_dir, [])\<rparr>)
                 else (case read_text (fs w) cat_path of
                         Inl e \<Rightarrow> (Inl e, w)
                       | Inr content \<Rightarrow>
                           (let m = module_map_of content
                            in (Inr m, w\<lparr>cache := Some (source_dir, m)\<rparr>)))))"

subsection \<open>Query engine\<close>

text \<open>Lines 146 to 154 of \<open>_search\<close>: the query vector of the tokens \<open>ws\<close> in the space
  of an index with the given \<open>vocab\<close> and \<open>idf\<close>.\<close>

definition query_item ::
  "arith \<Rightarrow> (string, nat) dict \<Rightarrow> (string, real) dict \<Rightarrow> (string, nat) dict \<Rightarrow> nat
     \<Rightarrow> string \<Rightarrow> error + string \<times> real" where
  "query_item A word_idx idf_d tf n w =
     (case getitem word_idx w of
        Inl e \<Rightarrow> Inl e
      | Inr i \<Rightarrow>
          (case getitem tf w of
             Inl e \<Rightarrow> Inl e
           | Inr c \<Rightarrow>
               Inr (str_nat i, fmul A (fdiv A (real c) (real n)) (get_default idf_d w 0))))"

definition query_vector ::
  "arith \<Rightarrow> string list \<Rightarrow> (string, real) dict \<Rightarrow> string list \<Rightarrow> error + sparse" where
  "query_vector A vocab_l idf_d ws =
     (let word_idx = dict_of (zip vocab_l [0 ..< length vocab_l]);
          tf = fold (\<lambda>w tf. if map_of word_idx w \<noteq> None
                             then AList.update w (get_default tf w 0 + 1) tf else tf) ws []
      in case traverse (query_item A word_idx idf_d tf (length ws)) (map fst tf) of
           Inl e \<Rightarrow> Inl e
         | Inr kvs \<Rightarrow> Inr (dict_of kvs))"

text \<open>Lines 157 and 158: the scores of all entries, sorted by the key \<open>-score\<close>
  (\<open>list.sort\<close> is stable, and so is \<^const>\<open>sort_key\<close>).\<close>

definition ranked :: "arith \<Rightarrow> sparse \<Rightarrow> sparse list \<Rightarrow> (nat \<times> real) list" where
  "ranked A q_vec vs =
     sort_key (\<lambda>x. - snd x) (map (\<lambda>(i, v). (i, cosine_sim A q_vec v)) (enumerate 0 vs))"

text \<open>\<open>_search\<close>. The document is read before the query is looked at, and its keys are
  subscripted in the order of lines 146, 147, 157 and 162: \<open>entries\<close> only inside the
  loop over the results.\<close>

definition search_internal ::
  "arith \<Rightarrow> string \<Rightarrow> filesystem \<Rightarrow> path \<Rightarrow> int \<Rightarrow> module_map \<Rightarrow> error + result list" where
  "search_internal A query files db_path top_k mm =
     (let db_name = path_stem db_path
      in case json_load files db_path of
           Inl e \<Rightarrow> Inl e
         | Inr db \<Rightarrow>
             (let ws = tokenize query
              in if ws = [] then Inr []
                 else
                   (case subscript db doc_vocab of
                      Inl e \<Rightarrow> Inl e
                    | Inr vocab_l \<Rightarrow>
                   (case subscript db doc_idf of
                      Inl e \<Rightarrow> Inl e
                    | Inr idf_d \<Rightarrow>
                   (case query_vector A vocab_l idf_d ws of
                      Inl e \<Rightarrow> Inl e
                    | Inr q_vec \<Rightarrow>
                   (case subscript db doc_vectors of
                      Inl e \<Rightarrow> Inl e
                    | Inr vs \<Rightarrow>
                        traverse
                          (\<lambda>(i, s). case subscript db doc_entries of
                                       Inl e \<Rightarrow> Inl e
                                     | Inr es \<Rightarrow>
                                         (case list_item es i of
                                            Inl e \<Rightarrow> Inl e
                                          | Inr en \<Rightarrow> Inr (enrich_result en i s db_name mm)))
                          (slice_to top_k (ranked A q_vec vs))))))))"

definition search ::
  "arith \<Rightarrow> string \<Rightarrow> world \<Rightarrow> path \<Rightarrow> int \<Rightarrow> (error + result list) \<times> world" where
  "search A query w db_path top_k =
     (case load_module_id_map w None of
        (Inl e, w') \<Rightarrow> (Inl e, w')
      | (Inr mm, w') \<Rightarrow> (search_internal A query (fs w') db_path top_k mm, w'))"

definition search_all ::
  "arith \<Rightarrow> string \<Rightarrow> world \<Rightarrow> path \<Rightarrow> int \<Rightarrow> (error + result list) \<times> world" where
  "search_all A query w build_dir top_k =
     (case load_module_id_map w None of
        (Inl e, w') \<Rightarrow> (Inl e, w')
      | (Inr mm, w') \<Rightarrow>
          (case traverse (\<lambda>dat. search_internal A query (fs w') dat top_k mm)
                         (glob_dat (fs w') build_dir) of
             Inl e \<Rightarrow> (Inl e, w')
           | Inr rss \<Rightarrow>
               (Inr (slice_to top_k (sort_key (\<lambda>r. - similarity r) (concat rss))), w')))"

subsection \<open>Index store: writing an index\<close>

definition vectorize_file ::
  "arith \<Rightarrow> filesystem \<Rightarrow> path \<Rightarrow> path \<Rightarrow> error + bool \<times> filesystem" where
  "vectorize_file A files source_file build_dir =
     (case read_text files source_file of
        Inl e \<Rightarrow> Inl e
      | Inr content \<Rightarrow>
          (let es = records content
           in if es = [] then Inr (False, files)
              else (case build_tfidf A es of
                      Inl e \<Rightarrow> Inl e
                    | Inr data \<Rightarrow>
                        (let doc = \<lparr>vocab = vocab data, idf = idf data, vectors = vectors data,
                                    entries = es,
                                    metadata = [(''source'', path_name source_file)]\<rparr>;
                             out_path = build_dir @ [replace_txt (path_name source_file)]
                         in Inr (True, json_dump files out_path doc)))))"

subsection \<open>Quantities of the specification\<close>

text \<open>The document frequency of a token, line 107, and the weight \<open>ln (N / df)\<close> of
  line 108, as functions of the tokenized entries.\<close>

definition df_count :: "string list list \<Rightarrow> string \<Rightarrow> nat" where
  "df_count docs w = length (filter (\<lambda>d. w \<in> set d) docs)"

definition idf_value :: "arith \<Rightarrow> string list list \<Rightarrow> string \<Rightarrow> real" where
  "idf_value A docs w =
     (if df_count docs w \<noteq> 0
      then flog A (fdiv A (real (length docs)) (real (df_count docs w))) else 0)"

subsection \<open>Sample inputs\<close>

text \<open>Two manifests: one whose first record has an empty name, and the example of the
  specification.\<close>

definition manifest_skip :: string where
  "manifest_skip = ''| x\<newline>\<newline>beta | y''"

definition manifest_two :: string where
  "manifest_two = ''alpha | x\<newline>\<newline>beta | y\<newline>''"

text \<open>Two states of the process: one whose index directory holds a text that is not
  JSON and the JSON text of an empty object, and one with no file at all.\<close>

definition empty_object :: jsonval where
  "empty_object = JObject \<lparr>doc_vocab = None, doc_idf = None, doc_vectors = None,
                            doc_entries = None, doc_metadata = None\<rparr>"

definition world_bad :: world where
  "world_bad = \<lparr>fs = [([''vectors'', ''bad.dat''], Plain ''not json'' None),
                      ([''shapeless'', ''empty.dat''], Plain ''{}'' (Some empty_object))],
                base = [''vc-database''], cache = None\<rparr>"

definition world_empty :: world where
  "world_empty = \<lparr>fs = [], base = [''vc-database''], cache = None\<rparr>"

text \<open>The source file and the manifest of \<open>test_vcdb.py\<close>, the two entries of the source,
  the index the vectorizer builds from them, the state before and after vectorizing, and
  the vector of the query \<open>how to add numbers\<close>.\<close>

definition entry_add :: string where
  "entry_add = ''add | Adds two numbers. Parameters: a, b.''"

definition entry_print :: string where
  "entry_print = ''print | Prints a value. Parameters: value.''"

definition source_text :: string where
  "source_text = ''add | Adds two numbers. Parameters: a, b.\<newline>\<newline>print | Prints a value. Parameters: value.\<newline>''"

definition manifest_test :: string where
  "manifest_test = ''mymod | Example module for tests.\<newline>''"

definition index_test :: index where
  "index_test =
     \<lparr>vocab = [''a'', ''add'', ''adds'', ''b'', ''numbers'', ''parameters'', ''print'', ''prints'',
               ''two'', ''value''],
      idf = [(''a'', 0), (''add'', ln 2), (''adds'', ln 2), (''b'', ln 2), (''numbers'', ln 2),
             (''parameters'', 0), (''print'', ln 2), (''prints'', ln 2), (''two'', ln 2),
             (''value'', ln 2)],
      vectors = [[(''1'', ln 2 / 7), (''2'', ln 2 / 7), (''8'', ln 2 / 7), (''4'', ln 2 / 7),
                  (''5'', 0), (''0'', 0), (''3'', ln 2 / 7)],
                 [(''6'', ln 2 / 6), (''7'', ln 2 / 6), (''0'', 0), (''9'', ln 2 / 3),
                  (''5'', 0)]],
      entries = [entry_add, entry_print],
      metadata = [(''source'', ''mymod.txt'')]\<rparr>"

definition world_test :: world where
  "world_test = \<lparr>fs = [([''source'', ''vector-categories.txt''], Plain manifest_test None),
                        ([''source'', ''mymod.txt''], Plain source_text None)],
                  base = [''vc-database''], cache = None\<rparr>"

definition world_indexed :: world where
  "world_indexed = \<lparr>fs = [([''source'', ''vector-categories.txt''], Plain manifest_test None),
                           ([''source'', ''mymod.txt''], Plain source_text None),
                           ([''vectors'', ''mymod.dat''], Document (document_of index_test))],
                     base = [''vc-database''], cache = None\<rparr>"

definition query_test_vec :: sparse where
  "query_test_vec = [(''1'', ln 2 / 4), (''4'', ln 2 / 4)]"

text \<open>The same index and state as the vectorizer builds them in doubles: \<open>log(2.0)\<close> is
  the double nearest to \<open>ln 2\<close>, and every weight is a rounded quotient times it, rounded.\<close>

definition index_test_doubles :: index where
  "index_test_doubles =
     (let l = binary64 (ln 2);
          w7 = binary64 (binary64 (1 / 7) * l);
          w6 = binary64 (binary64 (1 / 6) * l);
          w3 = binary64 (binary64 (2 / 6) * l)
      in \<lparr>vocab = [''a'', ''add'', ''adds'', ''b'', ''numbers'', ''parameters'', ''print'',
                  ''prints'', ''two'', ''value''],
          idf = [(''a'', 0), (''add'', l), (''adds'', l), (''b'', l), (''numbers'', l),
                 (''parameters'', 0), (''print'', l), (''prints'', l), (''two'', l),
                 (''value'', l)],
          vectors = [[(''1'', w7), (''2'', w7), (''8'', w7), (''4'', w7), (''5'', 0), (''0'', 0),
                      (''3'', w7)],
                     [(''6'', w6), (''7'', w6), (''0'', 0), (''9'', w3), (''5'', 0)]],
          entries = [entry_add, entry_print],
          metadata = [(''source'', ''mymod.txt'')]\<rparr>)"

definition world_indexed_doubles :: world where
  "world_indexed_doubles =
     \<lparr>fs = [([''source'', ''vector-categories.txt''], Plain manifest_test None),
            ([''source'', ''mymod.txt''], Plain source_text None),
            ([''vectors'', ''mymod.dat''], Document (document_of index_test_doubles))],
      base = [''vc-database''], cache = None\<rparr>"

definition query_test_vec_doubles :: sparse where
  "query_test_vec_doubles =
     [(''1'', binary64 (binary64 (1 / 4) * binary64 (ln 2))),
      (''4'', binary64 (binary64 (1 / 4) * binary64 (ln 2)))]"





text \<open>A vector of three weights 1, on which the doubles of lines 128 to 131 can be
  followed by hand.\<close>

definition ones :: sparse where
  "ones = [(''0'', 1), (''1'', 1), (''2'', 1)]"

section \<open>Properties\<close>

subsection \<open>The two arithmetics\<close>

lemma exact_simps [simp]:
  "fmul exact = (*)" "fdiv exact = (/)" "fsqrt exact = sqrt" "flog exact = ln"
  "fsum exact = sum_list" "set_order exact = (\<lambda>ks. ks)"
  by (simp_all add: exact_def)

lemma ieee_simps:
  "fmul ieee = (\<lambda>x y. binary64 (x * y))" "fdiv ieee = (\<lambda>x y. binary64 (x / y))"
  "fsqrt ieee = (\<lambda>x. binary64 (sqrt x))" "flog ieee = (\<lambda>x. binary64 (ln x))"
  "fsum ieee = (\<lambda>xs. foldl (\<lambda>a x. binary64 (a + x)) 0 xs)" "set_order ieee = (\<lambda>ks. ks)"
  by (simp_all add: ieee_def)

lemma round_even_near:
  assumes "of_int m - 1 / 2 < y" "y < of_int m + 1 / 2"
  shows "round_even y = m"
proof (cases "of_int m \<le> y")
  case True
  then have "\<lfloor>y\<rfloor> = m" using assms(2) by (simp add: floor_eq_iff)
  then show ?thesis using assms(2) by (simp add: round_even_def Let_def)
next
  case False
  then have f: "\<lfloor>y\<rfloor> = m - 1" using assms(1) by (simp add: floor_eq_iff)
  have "1 / 2 < y - of_int (m - 1)" using assms(1) by simp
  then show ?thesis using f by (simp add: round_even_def Let_def)
qed

lemma binary64_eq:
  assumes "2 ^ 52 \<le> x * 2 ^ k" "x * 2 ^ k < 2 ^ 53"
      and "of_int m - 1 / 2 < x * 2 ^ k" "x * 2 ^ k < of_int m + 1 / 2"
  shows "binary64 x = of_int m / 2 ^ k"
proof -
  have p: "0 < x * 2 ^ k" using assms(1) by (rule less_le_trans[rotated]) simp
  then have xp: "0 < x" by (simp add: zero_less_mult_iff)
  have pw: "(2::real) powr (52 - real k) = 2 ^ 52 / 2 ^ k"
    by (simp add: powr_diff powr_realpow)
  have pw1: "(2::real) powr (53 - real k) = 2 ^ 53 / 2 ^ k"
    by (simp add: powr_diff powr_realpow)
  have "2 powr (52 - real k) \<le> x" unfolding pw using assms(1) by (simp add: field_simps)
  then have lo: "52 - real k \<le> log 2 x" using xp by (simp add: le_log_iff)
  have "x < 2 powr (53 - real k)" unfolding pw1 using assms(2) by (simp add: field_simps)
  then have hi: "log 2 x < 53 - real k" using xp by (simp add: log_less_iff)
  have fl: "\<lfloor>log 2 \<bar>x\<bar>\<rfloor> = 52 - int k"
    using lo hi xp by (simp add: floor_eq_iff)
  have xa: "\<bar>x\<bar> = x" using xp by simp
  have "(2::real) powr (- real k) = 1 / 2 ^ k"
    by (simp add: powr_minus powr_realpow field_simps)
  then have e: "2 powr (of_int (\<lfloor>log 2 \<bar>x\<bar>\<rfloor> - 52)) = 1 / (2::real) ^ k"
    unfolding fl by simp
  have r: "round_even (x / (1 / 2 ^ k)) = m"
    using assms(3,4) by (intro round_even_near) simp_all
  have "binary64 x = of_int (round_even (x / 2 powr (of_int (\<lfloor>log 2 \<bar>x\<bar>\<rfloor> - 52))))
      * 2 powr (of_int (\<lfloor>log 2 \<bar>x\<bar>\<rfloor> - 52))"
  proof -
    have "x \<noteq> 0" using xp by simp
    then show ?thesis unfolding binary64_def Let_def by (simp only: if_False)
  qed
  also have "\<dots> = of_int m * (1 / 2 ^ k)" unfolding e r ..
  finally show ?thesis by simp
qed

lemma binary64_one: "binary64 1 = 1"
  using binary64_eq[of 1 52 "2 ^ 52"] by simp

lemma binary64_two: "binary64 2 = 2"
  using binary64_eq[of 2 51 "2 ^ 52"] by simp

lemma binary64_three: "binary64 3 = 3"
  using binary64_eq[of 3 51 "3 * 2 ^ 51"] by simp

lemma binary64_zero: "binary64 0 = 0"
  by (simp add: binary64_def)

lemma round_even_nonneg: "0 \<le> y \<Longrightarrow> 0 \<le> round_even y"
  by (simp add: round_even_def Let_def)

lemma binary64_nonneg: "0 \<le> x \<Longrightarrow> 0 \<le> binary64 x"
  by (simp add: binary64_def Let_def round_even_nonneg)

lemma round_even_ge_floor: "\<lfloor>y\<rfloor> \<le> round_even y"
  by (simp add: round_even_def Let_def)

lemma binary64_pos:
  assumes "0 < x"
  shows "0 < binary64 x"
proof -
  define e where "e = \<lfloor>log 2 \<bar>x\<bar>\<rfloor> - 52"
  have "of_int e \<le> log 2 x" using assms unfolding e_def by simp linarith
  then have "2 powr (of_int e) \<le> x" using assms by (simp add: le_log_iff)
  then have "1 \<le> x / 2 powr (of_int e)" by (simp add: le_divide_eq)
  then have "1 \<le> \<lfloor>x / 2 powr (of_int e)\<rfloor>" by linarith
  then have "1 \<le> round_even (x / 2 powr (of_int e))"
    using round_even_ge_floor[of "x / 2 powr (of_int e)"] by linarith
  then have "0 < real_of_int (round_even (x / 2 powr (of_int e))) * 2 powr (of_int e)"
    by (intro mult_pos_pos) simp_all
  moreover have "binary64 x = of_int (round_even (x / 2 powr (of_int e))) * 2 powr (of_int e)"
    using assms unfolding binary64_def Let_def e_def by simp
  ultimately show ?thesis by simp
qed

lemma positive_division:
  assumes "A = exact \<or> A = ieee" "0 < x" "0 < y"
  shows "0 < fdiv A x y"
proof -
  have "0 < x / y" using assms(2,3) by simp
  then have "0 < binary64 (x / y)" by (rule binary64_pos)
  then show ?thesis using assms by (auto simp: ieee_simps)
qed

lemma fsum_ieee_zeros: "foldl (\<lambda>a x. binary64 (a + x)) 0 (replicate n 0) = 0"
  by (induction n) (simp_all add: binary64_zero)

lemma zero_arithmetic:
  assumes "A = exact \<or> A = ieee"
  shows "flog A (fdiv A 1 1) = 0" "fmul A x 0 = 0" "fsqrt A (fsum A (replicate n 0)) = 0"
  using assms
  by (auto simp: ieee_simps binary64_one binary64_zero fsum_ieee_zeros sum_list_replicate)

subsection \<open>Loops and dictionaries\<close>

lemma traverse_Inr_iff: "traverse f xs = Inr ys \<longleftrightarrow> map f xs = map Inr ys"
proof (induction xs arbitrary: ys)
  case Nil
  then show ?case by auto
next
  case (Cons x xs)
  show ?case
  proof (cases "f x")
    case (Inl e)
    then show ?thesis by (cases ys) auto
  next
    case (Inr y)
    show ?thesis
    proof (cases "traverse f xs")
      case (Inl e)
      with Cons[of "tl ys"] Inr show ?thesis by (cases ys) auto
    next
      case r: (Inr zs)
      with Cons[of zs] Cons[of "tl ys"] Inr show ?thesis by (cases ys) auto
    qed
  qed
qed

lemma traverse_Inl: "traverse f xs = Inl e \<Longrightarrow> \<exists>x\<in>set xs. f x = Inl e"
  by (induction xs) (auto split: sum.splits)

lemma traverse_total:
  "(\<And>x. x \<in> set xs \<Longrightarrow> f x = Inr (g x)) \<Longrightarrow> traverse f xs = Inr (map g xs)"
  by (induction xs) auto

lemma update_subset: "set (AList.update k v al) \<subseteq> insert (k, v) (set al)"
  by (induction al) auto

lemma fold_update_set:
  "set (fold (\<lambda>(k, v) d. AList.update k v d) kvs acc) \<subseteq> set kvs \<union> set acc"
proof (induction kvs arbitrary: acc)
  case Nil
  then show ?case by simp
next
  case (Cons kv kvs)
  obtain k v where kv: "kv = (k, v)" by (cases kv)
  have "set (AList.update k v acc) \<subseteq> insert (k, v) (set acc)"
    by (rule update_subset)
  with Cons[of "AList.update k v acc"] show ?case
    unfolding kv by auto
qed

lemma dict_of_subset: "set (dict_of kvs) \<subseteq> set kvs"
  using fold_update_set[of kvs "[]"] by (simp add: dict_of_def)

lemma fold_update_keys:
  "fst ` set (fold (\<lambda>(k, v) d. AList.update k v d) kvs acc) = fst ` set kvs \<union> fst ` set acc"
  by (induction kvs arbitrary: acc) (auto simp: dom_update split: prod.splits)

lemma dict_of_keys: "fst ` set (dict_of kvs) = fst ` set kvs"
  using fold_update_keys[of kvs "[]"] by (simp add: dict_of_def)

lemma getitem_Inr: "getitem d k = Inr v \<Longrightarrow> (k, v) \<in> set d"
  by (auto simp: getitem_def split: option.splits dest: map_of_SomeD)

lemma getitem_total: "k \<in> fst ` set d \<Longrightarrow> \<exists>v. getitem d k = Inr v"
  by (cases "map_of d k") (auto simp: getitem_def map_of_eq_None_iff)

lemma count_tf_keys_aux:
  "fst ` set (fold (\<lambda>w tf. AList.update w (g tf w) tf) doc acc) = set doc \<union> fst ` set acc"
  by (induction doc arbitrary: acc) (auto simp: dom_update)

lemma count_tf_keys: "fst ` set (count_tf doc) = set doc"
  by (simp add: count_tf_def count_tf_keys_aux)

lemma traverse_all:
  "(\<And>x. x \<in> set xs \<Longrightarrow> \<exists>y. f x = Inr y \<and> P y) \<Longrightarrow>
     \<exists>ys. traverse f xs = Inr ys \<and> length ys = length xs \<and> (\<forall>y\<in>set ys. P y)"
proof (induction xs)
  case Nil
  then show ?case by simp
next
  case (Cons x xs)
  obtain y where y: "f x = Inr y" "P y" using Cons.prems[of x] by auto
  obtain ys where ys: "traverse f xs = Inr ys" "length ys = length xs" "\<forall>y\<in>set ys. P y"
    using Cons.IH Cons.prems by auto
  show ?case using y ys by simp
qed

lemma idf_item_value:
  assumes "w \<in> set vocab_l"
      and pos: "\<And>x y. 0 < x \<Longrightarrow> 0 < y \<Longrightarrow> 0 < fdiv A x y"
  shows "idf_item A (length docs) (dict_of (map (\<lambda>w. (w, length (filter (\<lambda>d. w \<in> set d) docs))) vocab_l)) w
           = Inr (w, idf_value A docs w)"
proof -
  let ?df = "dict_of (map (\<lambda>w. (w, length (filter (\<lambda>d. w \<in> set d) docs))) vocab_l)"
  have "w \<in> fst ` set ?df" using assms(1) by (force simp: dict_of_keys)
  then obtain c where c: "getitem ?df w = Inr c" using getitem_total[of w ?df] by blast
  then have "(w, c) \<in> set ?df" by (rule getitem_Inr)
  then have "(w, c) \<in> set (map (\<lambda>w. (w, length (filter (\<lambda>d. w \<in> set d) docs))) vocab_l)"
    using dict_of_subset by blast
  then have cv: "c = df_count docs w" by (auto simp: df_count_def)
  have "c \<le> length docs" unfolding cv df_count_def by (rule length_filter_le)
  then have "c \<noteq> 0 \<Longrightarrow> 0 < fdiv A (real (length docs)) (real c)"
    by (intro pos) auto
  then show ?thesis using c cv by (simp add: idf_item_def math_log_def idf_value_def)
qed

lemma doc_vector_ok:
  assumes "set doc \<subseteq> fst ` set word_idx" "set doc \<subseteq> fst ` set idf_d"
  shows "\<exists>v. doc_vector A word_idx idf_d doc = Inr v \<and>
           (\<forall>kx\<in>set v. \<exists>w i c y. (w, i) \<in> set word_idx \<and> fst kx = str_nat i \<and> (w, y) \<in> set idf_d
                \<and> snd kx = fmul A (fdiv A (real c) (real (length doc))) y)"
proof (cases "doc = []")
  case True
  then show ?thesis by (simp add: doc_vector_def)
next
  case False
  let ?tf = "count_tf doc"
  let ?P = "\<lambda>kx. \<exists>w i c y. (w, i) \<in> set word_idx \<and> fst kx = str_nat i \<and> (w, y) \<in> set idf_d
                \<and> snd kx = fmul A (fdiv A (real c) (real (length doc))) y"
  have "\<exists>y. weight_item A word_idx idf_d ?tf (length doc) w = Inr y \<and> ?P y"
    if "w \<in> set (map fst ?tf)" for w
  proof -
    have wd: "w \<in> set doc" using that count_tf_keys[of doc] by auto
    have "w \<in> fst ` set word_idx" using wd assms(1) by blast
    then obtain i where i: "getitem word_idx w = Inr i" using getitem_total[of w word_idx] by blast
    have "w \<in> fst ` set ?tf" using that by simp
    then obtain c where c: "getitem ?tf w = Inr c" using getitem_total[of w ?tf] by blast
    have "w \<in> fst ` set idf_d" using wd assms(2) by blast
    then obtain y where y: "getitem idf_d w = Inr y" using getitem_total[of w idf_d] by blast
    show ?thesis using i c y getitem_Inr[OF i] getitem_Inr[OF y]
      by (auto simp: weight_item_def)
  qed
  then obtain kvs where kvs: "traverse (weight_item A word_idx idf_d ?tf (length doc)) (map fst ?tf) = Inr kvs"
      "\<forall>y\<in>set kvs. ?P y"
    using traverse_all[of "map fst ?tf" "weight_item A word_idx idf_d ?tf (length doc)" ?P] by blast
  have "\<forall>y\<in>set (dict_of kvs). ?P y" using kvs(2) dict_of_subset[of kvs] by blast
  then show ?thesis using False kvs(1) by (simp add: doc_vector_def)
qed

lemma zip_upt_keys: "fst ` set (zip xs [0 ..< length xs]) = set xs"
proof -
  have "map fst (zip xs [0 ..< length xs]) = xs" by (simp add: map_fst_zip)
  then have "set (map fst (zip xs [0 ..< length xs])) = set xs" by (rule arg_cong)
  then show ?thesis by (simp only: set_map)
qed

lemma build_tfidf_shape:
  assumes pos: "\<And>x y. 0 < x \<Longrightarrow> 0 < y \<Longrightarrow> 0 < fdiv A x y"
  shows "\<exists>d. build_tfidf A es = Inr d
      \<and> vocab d = sort (remdups (concat (map tokenize es)))
      \<and> set (idf d) \<subseteq> (\<lambda>w. (w, idf_value A (map tokenize es) w)) ` set (vocab d)
      \<and> length (vectors d) = length es
      \<and> (\<forall>v\<in>set (vectors d). \<forall>kx\<in>set v. \<exists>w i c n y. i < length (vocab d) \<and> fst kx = str_nat i
            \<and> (w, y) \<in> set (idf d) \<and> snd kx = fmul A (fdiv A (real c) (real n)) y)"
proof -
  let ?docs = "map tokenize es"
  let ?vocab = "sort (remdups (concat ?docs))"
  let ?widx = "dict_of (zip ?vocab [0 ..< length ?vocab])"
  let ?df = "dict_of (map (\<lambda>w. (w, length (filter (\<lambda>d. w \<in> set d) ?docs))) ?vocab)"
  let ?kvs = "map (\<lambda>w. (w, idf_value A ?docs w)) ?vocab"
  let ?idf = "dict_of ?kvs"
  have t1: "traverse (idf_item A (length ?docs) ?df) ?vocab = Inr ?kvs"
    by (rule traverse_total) (rule idf_item_value[OF _ pos])
  have k1: "fst ` set ?widx = set ?vocab"
    unfolding dict_of_keys by (rule zip_upt_keys)
  have "map fst ?kvs = ?vocab" by (simp add: comp_def)
  then have "set (map fst ?kvs) = set ?vocab" by (rule arg_cong)
  then have k2: "fst ` set ?idf = set ?vocab"
    unfolding dict_of_keys by (simp only: set_map)
  have widx: "i < length ?vocab" if "(w, i) \<in> set ?widx" for w i
  proof -
    from that have "(w, i) \<in> set (zip ?vocab [0 ..< length ?vocab])"
      using dict_of_subset by blast
    then have "i \<in> set [0 ..< length ?vocab]" by (rule set_zip_rightD)
    then show ?thesis by simp
  qed
  let ?Q = "\<lambda>v. \<forall>kx\<in>set v. \<exists>w i c n y. i < length ?vocab \<and> fst kx = str_nat i
            \<and> (w, y) \<in> set ?idf \<and> snd kx = fmul A (fdiv A (real c) (real n)) y"
  have "\<exists>v. doc_vector A ?widx ?idf doc = Inr v \<and> ?Q v" if "doc \<in> set ?docs" for doc
  proof -
    have sub: "set doc \<subseteq> set ?vocab" using that by auto
    from doc_vector_ok[where doc = doc and word_idx = "?widx" and idf_d = "?idf" and A = A] sub k1 k2
    obtain v where v: "doc_vector A ?widx ?idf doc = Inr v"
      "\<forall>kx\<in>set v. \<exists>w i c y. (w, i) \<in> set ?widx \<and> fst kx = str_nat i \<and> (w, y) \<in> set ?idf
                \<and> snd kx = fmul A (fdiv A (real c) (real (length doc))) y"
      by auto
    have "?Q v"
    proof
      fix kx assume "kx \<in> set v"
      with v(2) obtain w i c y where h: "(w, i) \<in> set ?widx" "fst kx = str_nat i"
          "(w, y) \<in> set ?idf" "snd kx = fmul A (fdiv A (real c) (real (length doc))) y" by blast
      from widx[OF h(1)] h show "\<exists>w i c n y. i < length ?vocab \<and> fst kx = str_nat i
            \<and> (w, y) \<in> set ?idf \<and> snd kx = fmul A (fdiv A (real c) (real n)) y" by blast
    qed
    with v(1) show ?thesis by blast
  qed
  then obtain vs where vs: "traverse (doc_vector A ?widx ?idf) ?docs = Inr vs"
      "length vs = length ?docs" "\<forall>v\<in>set vs. ?Q v"
    using traverse_all[of ?docs "doc_vector A ?widx ?idf" ?Q] by blast
  have b: "build_tfidf A es = Inr \<lparr>vocab = ?vocab, idf = ?idf, vectors = vs\<rparr>"
    unfolding build_tfidf_def Let_def t1 using vs(1) by simp
  have i: "set ?idf \<subseteq> (\<lambda>w. (w, idf_value A ?docs w)) ` set ?vocab"
    using dict_of_subset[of ?kvs] by auto
  show ?thesis using b i vs(2,3) by simp
qed

subsection \<open>Evaluation on concrete texts\<close>

lemma tokenize_a: "tokenize ''a'' = [''a'']"
  by code_simp

lemma tokenize_ab: "tokenize ''add b'' = [''add'', ''b'']" "tokenize ''b'' = [''b'']"
  by code_simp+

lemma str_nat_digits:
  "str_nat 0 = ''0''" "str_nat 1 = ''1''" "str_nat 2 = ''2''" "str_nat 3 = ''3''"
  "str_nat 4 = ''4''" "str_nat 5 = ''5''" "str_nat 6 = ''6''" "str_nat 7 = ''7''"
  "str_nat 8 = ''8''" "str_nat 9 = ''9''" "str_nat (Suc 0) = ''1''"
  by code_simp+

lemmas build_defs = build_tfidf_def dict_of_def idf_item_def getitem_def math_log_def
  doc_vector_def count_tf_def weight_item_def get_default_def

lemma build_two:
  "build_tfidf exact [''add b'', ''b''] =
     Inr \<lparr>vocab = [''add'', ''b''], idf = [(''add'', ln 2), (''b'', 0)],
          vectors = [[(''0'', ln 2 / 2), (''1'', 0)], [(''1'', 0)]]\<rparr>"
  by (simp add: build_defs tokenize_ab str_nat_digits)

lemma strip_ex: "strip '' clear screen '' = ''clear screen''"
  by code_simp

subsection \<open>Vectorizer\<close>

text \<open>
  C1. The claim: every stored vector holds only tokens whose weight \<open>tf * idf\<close> is
  non-zero. The comprehension of line 119 has no filter, so a token that occurs in every
  entry (\<open>idf = ln 1 = 0\<close>) is stored with weight 0: the one-entry corpus \<open>["a"]\<close> gets
  the vector \<open>{"0": 0.0}\<close>, over the reals and in doubles.
\<close>

theorem zero_weight_is_stored:
  "build_tfidf exact [''a''] = Inr \<lparr>vocab = [''a''], idf = [(''a'', 0)], vectors = [[(''0'', 0)]]\<rparr>
   \<and> build_tfidf ieee [''a''] = Inr \<lparr>vocab = [''a''], idf = [(''a'', 0)], vectors = [[(''0'', 0)]]\<rparr>"
  by (simp add: build_defs tokenize_a str_nat_digits ieee_simps binary64_one binary64_zero)

text \<open>
  C7. For every list of entries the vectorizer returns (it raises nothing), over the
  reals and in doubles, with one vector per entry, and every key of every vector is
  \<open>str(i)\<close> for an index \<open>i\<close> into \<open>vocab\<close>.
\<close>

theorem vectors_aligned_keys_valid:
  assumes "A = exact \<or> A = ieee"
  shows "\<exists>d. build_tfidf A es = Inr d
      \<and> length (vectors d) = length es
      \<and> (\<forall>v\<in>set (vectors d). \<forall>k\<in>set (map fst v). \<exists>i<length (vocab d). k = str_nat i)"
proof -
  have pos: "\<And>x y. 0 < x \<Longrightarrow> 0 < y \<Longrightarrow> 0 < fdiv A x y"
    using assms by (rule positive_division)
  obtain d where d: "build_tfidf A es = Inr d" "length (vectors d) = length es"
    "\<forall>v\<in>set (vectors d). \<forall>kx\<in>set v. \<exists>w i c n y. i < length (vocab d) \<and> fst kx = str_nat i
            \<and> (w, y) \<in> set (idf d) \<and> snd kx = fmul A (fdiv A (real c) (real n)) y"
    using build_tfidf_shape[OF pos, of es] by blast
  have "\<forall>v\<in>set (vectors d). \<forall>k\<in>set (map fst v). \<exists>i<length (vocab d). k = str_nat i"
  proof (intro ballI)
    fix v k assume v: "v \<in> set (vectors d)" and "k \<in> set (map fst v)"
    then obtain kx where kx: "kx \<in> set v" "k = fst kx" by auto
    with d(3) v show "\<exists>i<length (vocab d). k = str_nat i" by blast
  qed
  with d(1,2) show ?thesis by blast
qed

theorem vectors_aligned_keys_valid_witness:
  "(\<exists>d. build_tfidf exact [''add b'', ''b''] = Inr d
      \<and> length (vectors d) = 2
      \<and> vectors d = [[(''0'', ln 2 / 2), (''1'', 0)], [(''1'', 0)]]
      \<and> vocab d = [''add'', ''b'']
      \<and> (\<exists>i<length (vocab d). ''0'' = str_nat i)
      \<and> (\<exists>i<length (vocab d). ''1'' = str_nat i))
   \<and> (\<exists>d. build_tfidf ieee [''a''] = Inr d
      \<and> length (vectors d) = 1
      \<and> vectors d = [[(''0'', 0)]]
      \<and> vocab d = [''a'']
      \<and> (\<exists>i<length (vocab d). ''0'' = str_nat i))"
proof -
  have i: "build_tfidf ieee [''a'']
             = Inr \<lparr>vocab = [''a''], idf = [(''a'', 0)], vectors = [[(''0'', 0)]]\<rparr>"
    by (simp add: build_defs tokenize_a str_nat_digits ieee_simps binary64_one binary64_zero)
  show ?thesis
    using vectors_aligned_keys_valid[of exact "[''add b'', ''b'']"]
      vectors_aligned_keys_valid[of ieee "[''a'']"]
    by (auto simp: build_two i)
qed

subsection \<open>Result enricher\<close>

text \<open>
  C10. For an entry with no bar the operation name is the whole entry, stripped, and
  \<open>enrich_result\<close>, which has no raising path, returns a result with that \<open>op_name\<close>.
\<close>

theorem op_name_without_bar:
  assumes "CHR ''|'' \<notin> set e"
  shows "parse_op_name e = strip e \<and> op_name (enrich_result e opc sim db mm) = strip e"
proof -
  have "first_field e = e" using assms by (auto simp: first_field_def)
  then show ?thesis by (simp add: parse_op_name_def enrich_result_def Let_def)
qed

theorem op_name_without_bar_witness:
  "CHR ''|'' \<notin> set '' clear screen ''
   \<and> parse_op_name '' clear screen '' = ''clear screen''
   \<and> op_name (enrich_result '' clear screen '' 3 0 ''mymod'' []) = ''clear screen''"
  using op_name_without_bar[of "'' clear screen ''" 3 0 "''mymod''" "[]"]
  by (simp add: strip_ex)

subsection \<open>Cosine similarity\<close>

lemma cauchy_schwarz_sum:
  fixes a b :: "'k \<Rightarrow> real"
  assumes "finite K"
  shows "(\<Sum>k\<in>K. a k * b k)\<^sup>2 \<le> (\<Sum>k\<in>K. (a k)\<^sup>2) * (\<Sum>k\<in>K. (b k)\<^sup>2)"
proof -
  define A where "A = (\<Sum>k\<in>K. (a k)\<^sup>2)"
  define B where "B = (\<Sum>k\<in>K. (b k)\<^sup>2)"
  define C where "C = (\<Sum>k\<in>K. a k * b k)"
  have B0: "0 \<le> B" unfolding B_def by (rule sum_nonneg) simp
  have A0: "0 \<le> A" unfolding A_def by (rule sum_nonneg) simp
  have pt: "(B * a k - C * b k)\<^sup>2 = B\<^sup>2 * (a k)\<^sup>2 - 2 * B * C * (a k * b k) + C\<^sup>2 * (b k)\<^sup>2" for k
    by (simp add: power2_eq_square algebra_simps)
  have "0 \<le> (\<Sum>k\<in>K. (B * a k - C * b k)\<^sup>2)" by (rule sum_nonneg) simp
  also have "\<dots> = B\<^sup>2 * (\<Sum>k\<in>K. (a k)\<^sup>2) - 2 * B * C * (\<Sum>k\<in>K. a k * b k)
       + C\<^sup>2 * (\<Sum>k\<in>K. (b k)\<^sup>2)"
    by (simp only: pt sum_subtractf sum.distrib sum_distrib_left)
  also have "\<dots> = B\<^sup>2 * A - 2 * B * C * C + C\<^sup>2 * B"
    by (simp only: flip: A_def B_def C_def)
  also have "\<dots> = B * (A * B - C\<^sup>2)" by (simp add: power2_eq_square algebra_simps)
  finally have le: "0 \<le> B * (A * B - C\<^sup>2)" .
  show ?thesis
  proof (cases "B = 0")
    case True
    then have "\<forall>k\<in>K. (b k)\<^sup>2 = 0"
      unfolding B_def using assms by (simp add: sum_nonneg_eq_0_iff)
    then have "C = 0" unfolding C_def by simp
    then show ?thesis using A0 True unfolding A_def B_def C_def by simp
  next
    case False
    then have "0 < B" using B0 by simp
    with le have "0 \<le> A * B - C\<^sup>2" by (simp add: zero_le_mult_iff)
    then show ?thesis unfolding A_def B_def C_def by simp
  qed
qed

lemma sumsq_keys_le:
  assumes "finite K"
  shows "(\<Sum>k\<in>K. (get_default v k 0)\<^sup>2) \<le> sum_list (map (\<lambda>x. x * x) (map snd (v :: ('k \<times> real) list)))"
  using assms
proof (induction v arbitrary: K)
  case Nil
  then show ?case by (simp add: get_default_def)
next
  case (Cons p v)
  obtain k0 x0 where p: "p = (k0, x0)" by (cases p)
  have g: "get_default (p # v) k 0 = (if k = k0 then x0 else get_default v k 0)" for k
    by (simp add: get_default_def p)
  have fin: "finite (K - {k0})" using Cons.prems by simp
  have rest: "(\<Sum>k\<in>K - {k0}. (get_default (p # v) k 0)\<^sup>2) = (\<Sum>k\<in>K - {k0}. (get_default v k 0)\<^sup>2)"
    by (rule sum.cong) (auto simp: g)
  have "(\<Sum>k\<in>K. (get_default (p # v) k 0)\<^sup>2) \<le> x0\<^sup>2 + (\<Sum>k\<in>K - {k0}. (get_default v k 0)\<^sup>2)"
  proof (cases "k0 \<in> K")
    case True
    then have "(\<Sum>k\<in>K. (get_default (p # v) k 0)\<^sup>2)
        = (get_default (p # v) k0 0)\<^sup>2 + (\<Sum>k\<in>K - {k0}. (get_default (p # v) k 0)\<^sup>2)"
      using Cons.prems by (simp add: sum.remove)
    then show ?thesis by (simp add: rest g)
  next
    case False
    then have "K - {k0} = K" by auto
    then show ?thesis using rest by simp
  qed
  also have "\<dots> \<le> x0\<^sup>2 + sum_list (map (\<lambda>x. x * x) (map snd v))"
    using Cons.IH[OF fin] by simp
  finally show ?case by (simp add: p power2_eq_square)
qed

lemma dot_as_sum:
  "sum_list (map f (remdups xs)) = (\<Sum>k\<in>set xs. f k)" for f :: "'a \<Rightarrow> real"
  using sum_list_distinct_conv_sum_set[of "remdups xs" f] by simp

lemma sumsq_nonneg: "0 \<le> sum_list (map (\<lambda>x. x * x) (xs :: real list))"
  by (induction xs) auto

lemma cosine_dot_le:
  fixes v1 v2 :: "('k \<times> real) list"
  shows "(sum_list (map (\<lambda>k. get_default v1 k 0 * get_default v2 k 0) (remdups (map fst v1 @ map fst v2))))\<^sup>2
     \<le> sum_list (map (\<lambda>x. x * x) (map snd v1)) * sum_list (map (\<lambda>x. x * x) (map snd v2))"
proof -
  let ?K = "set (map fst v1 @ map fst v2)"
  have fin: "finite ?K" by simp
  have "(\<Sum>k\<in>?K. get_default v1 k 0 * get_default v2 k 0)\<^sup>2
      \<le> (\<Sum>k\<in>?K. (get_default v1 k 0)\<^sup>2) * (\<Sum>k\<in>?K. (get_default v2 k 0)\<^sup>2)"
    by (rule cauchy_schwarz_sum[OF fin])
  also have "\<dots> \<le> sum_list (map (\<lambda>x. x * x) (map snd v1)) * sum_list (map (\<lambda>x. x * x) (map snd v2))"
    by (intro mult_mono sumsq_keys_le fin sum_nonneg sumsq_nonneg) simp
  finally show ?thesis by (simp only: dot_as_sum)
qed

lemma get_default_nonneg:
  fixes v :: "('k \<times> real) list"
  assumes "\<forall>x\<in>set (map snd v). 0 \<le> x"
  shows "0 \<le> get_default v k 0"
proof (cases "map_of v k")
  case None
  then show ?thesis by (simp add: get_default_def)
next
  case (Some x)
  then have "(k, x) \<in> set v" by (rule map_of_SomeD)
  then have "x \<in> set (map snd v)" by force
  with assms Some show ?thesis by (auto simp: get_default_def)
qed

lemma cosine_sim_exact:
  "cosine_sim exact v1 v2 =
     (let dot = sum_list (map (\<lambda>k. get_default v1 k 0 * get_default v2 k 0)
                   (remdups (map fst v1 @ map fst v2)));
          n1 = (if v1 \<noteq> [] then sqrt (sum_list (map (\<lambda>x. x * x) (map snd v1))) else 0);
          n2 = (if v2 \<noteq> [] then sqrt (sum_list (map (\<lambda>x. x * x) (map snd v2))) else 0)
      in if n1 \<noteq> 0 \<and> n2 \<noteq> 0 then dot / (n1 * n2) else 0)"
  by (simp add: cosine_sim_def magnitude_def Let_def)

lemma cosine_sim_zero_magnitude:
  "v1 = [] \<or> v2 = [] \<or> magnitude A v1 = 0 \<or> magnitude A v2 = 0 \<Longrightarrow> cosine_sim A v1 v2 = 0"
  by (auto simp: cosine_sim_def magnitude_def Let_def)

lemma cosine_sim_range:
  assumes "\<forall>x\<in>set (map snd v1). 0 \<le> x" "\<forall>x\<in>set (map snd v2). 0 \<le> x"
  shows "0 \<le> cosine_sim exact v1 v2" "cosine_sim exact v1 v2 \<le> 1"
proof -
  let ?dot = "sum_list (map (\<lambda>k. get_default v1 k 0 * get_default v2 k 0)
                 (remdups (map fst v1 @ map fst v2)))"
  let ?S1 = "sum_list (map (\<lambda>x. x * x) (map snd v1))"
  let ?S2 = "sum_list (map (\<lambda>x. x * x) (map snd v2))"
  have dot0: "0 \<le> ?dot"
    by (intro sum_list_nonneg) (auto intro!: mult_nonneg_nonneg get_default_nonneg assms)
  have "?dot\<^sup>2 \<le> ?S1 * ?S2" by (rule cosine_dot_le)
  then have "?dot \<le> sqrt (?S1 * ?S2)" by (rule real_le_rsqrt)
  then have le: "?dot \<le> sqrt ?S1 * sqrt ?S2" by (simp add: real_sqrt_mult)
  have s0: "0 \<le> sqrt ?S1 * sqrt ?S2"
    by (intro mult_nonneg_nonneg real_sqrt_ge_zero sumsq_nonneg)
  show "0 \<le> cosine_sim exact v1 v2"
    using dot0 s0 by (simp add: cosine_sim_exact Let_def)
  show "cosine_sim exact v1 v2 \<le> 1"
  proof (cases "sqrt ?S1 * sqrt ?S2 = 0")
    case True
    then show ?thesis by (auto simp: cosine_sim_exact Let_def)
  next
    case False
    then have "0 < sqrt ?S1 * sqrt ?S2" using s0 by (simp only: less_le) simp
    then have "?dot / (sqrt ?S1 * sqrt ?S2) \<le> 1" using le by simp
    then show ?thesis by (simp add: cosine_sim_exact Let_def)
  qed
qed

subsection \<open>Cosine similarity in doubles\<close>

lemma sqrt3_lower: "15600926743107923 / 2 ^ 53 < sqrt 3"
  by (rule real_less_rsqrt) (simp add: power2_eq_square)

lemma sqrt3_upper: "sqrt 3 < 15600926743107925 / 2 ^ 53"
  by (rule real_less_lsqrt) (simp_all add: power2_eq_square)

lemma binary64_sqrt3: "binary64 (sqrt 3) = 7800463371553962 / 2 ^ 52"
proof -
  have "2 ^ 52 \<le> sqrt 3 * 2 ^ 52" by simp
  moreover have "sqrt 3 * 2 ^ 52 < 2 ^ 53" using sqrt3_upper by simp
  moreover have "of_int 7800463371553962 - 1 / 2 < sqrt 3 * 2 ^ 52" using sqrt3_lower by simp
  moreover have "sqrt 3 * 2 ^ 52 < of_int 7800463371553962 + 1 / 2" using sqrt3_upper by simp
  ultimately show ?thesis using binary64_eq[of "sqrt 3" 52 7800463371553962] by simp
qed

lemma binary64_square:
  "binary64 ((7800463371553962 / 2 ^ 52) * (7800463371553962 / 2 ^ 52)) = 6755399441055743 / 2 ^ 51"
  using binary64_eq[of "(7800463371553962 / 2 ^ 52) * (7800463371553962 / 2 ^ 52)" 51 6755399441055743]
  by simp

lemma binary64_quotient:
  "binary64 (3 / (6755399441055743 / 2 ^ 51)) = 4503599627370497 / 2 ^ 52"
  using binary64_eq[of "3 / (6755399441055743 / 2 ^ 51)" 52 4503599627370497]
  by simp

lemma magnitude_ieee_ones: "magnitude ieee ones = 7800463371553962 / 2 ^ 52"
  by (simp add: magnitude_def ones_def ieee_simps binary64_one binary64_two binary64_three
      binary64_sqrt3)

lemma dot_ieee_ones:
  "fsum ieee (map (\<lambda>k. fmul ieee (get_default ones k 0) (get_default ones k 0))
     (set_order ieee (remdups (map fst ones @ map fst ones)))) = 3"
  by (simp add: ones_def ieee_simps get_default_def binary64_one binary64_two binary64_three)

lemma cosine_ieee_ones: "cosine_sim ieee ones ones = 1 + 1 / 2 ^ 52"
proof -
  have "cosine_sim ieee ones ones = binary64 (3 / binary64 ((7800463371553962 / 2 ^ 52) * (7800463371553962 / 2 ^ 52)))"
    unfolding cosine_sim_def Let_def dot_ieee_ones magnitude_ieee_ones
    by (simp add: ieee_simps)
  also have "\<dots> = 4503599627370497 / 2 ^ 52"
    unfolding binary64_square binary64_quotient ..
  finally show ?thesis by simp
qed

lemma fsum_ieee_nonneg:
  "\<forall>x\<in>set xs. 0 \<le> x \<Longrightarrow> 0 \<le> a \<Longrightarrow> 0 \<le> foldl (\<lambda>a x. binary64 (a + x)) a xs"
  by (induction xs arbitrary: a) (simp_all add: binary64_nonneg)

lemma magnitude_ieee_nonneg: "0 \<le> magnitude ieee v"
proof -
  have "0 \<le> foldl (\<lambda>a x. binary64 (a + x)) 0 (map (\<lambda>x. binary64 (x * x)) (map snd v))"
    by (rule fsum_ieee_nonneg) (auto simp: binary64_nonneg)
  then show ?thesis by (simp add: magnitude_def ieee_simps binary64_nonneg)
qed

lemma cosine_sim_ieee_nonneg:
  assumes "\<forall>x\<in>set (map snd v1). 0 \<le> x" "\<forall>x\<in>set (map snd v2). 0 \<le> x"
  shows "0 \<le> cosine_sim ieee v1 v2"
proof -
  let ?keys = "remdups (map fst v1 @ map fst v2)"
  let ?dot = "foldl (\<lambda>a x. binary64 (a + x)) 0
                (map (\<lambda>k. binary64 (get_default v1 k 0 * get_default v2 k 0)) ?keys)"
  have "0 \<le> ?dot"
    by (rule fsum_ieee_nonneg)
       (auto intro!: binary64_nonneg mult_nonneg_nonneg get_default_nonneg assms)
  moreover have "0 \<le> binary64 (magnitude ieee v1 * magnitude ieee v2)"
    by (intro binary64_nonneg mult_nonneg_nonneg magnitude_ieee_nonneg)
  ultimately have "0 \<le> ?dot / binary64 (magnitude ieee v1 * magnitude ieee v2)"
    by (rule divide_nonneg_nonneg)
  then have "0 \<le> binary64 (?dot / binary64 (magnitude ieee v1 * magnitude ieee v2))"
    by (rule binary64_nonneg)
  then show ?thesis by (simp add: cosine_sim_def Let_def ieee_simps)
qed

text \<open>
  C8 (as the code has it). \<^verbatim>\<open>cosine_sim\<close> returns exactly 0 when a vector is empty or has
  magnitude 0, whatever the arithmetic. For non-negative weights the value it returns
  is never negative, in doubles (when nothing overflows) as over the reals, and over the
  reals the quotient \<open>dot / (|v1| * |v2|)\<close> is at most 1 by the Cauchy-Schwarz inequality.
  The upper bound is not a property of the double that lines 128 to 131 return: every
  operation rounds, and the rounded quotient can exceed 1.
\<close>

theorem cosine_sim_bounds:
  "(v1 = [] \<or> v2 = [] \<or> magnitude A v1 = 0 \<or> magnitude A v2 = 0 \<longrightarrow> cosine_sim A v1 v2 = 0)
   \<and> ((\<forall>x\<in>set (map snd v1). 0 \<le> x) \<and> (\<forall>x\<in>set (map snd v2). 0 \<le> x)
        \<longrightarrow> 0 \<le> cosine_sim ieee v1 v2
          \<and> 0 \<le> cosine_sim exact v1 v2 \<and> cosine_sim exact v1 v2 \<le> 1)"
  using cosine_sim_zero_magnitude[of v1 v2 A] cosine_sim_range[of v1 v2]
    cosine_sim_ieee_nonneg[of v1 v2] by blast

theorem cosine_sim_bounds_witness:
  "cosine_sim exact [(''0'', 1), (''1'', 1)] [(''0'', 1)] = 1 / sqrt 2
   \<and> 0 \<le> cosine_sim exact [(''0'', 1), (''1'', 1)] [(''0'', 1)]
   \<and> cosine_sim exact [(''0'', 1), (''1'', 1)] [(''0'', 1)] \<le> 1
   \<and> 0 \<le> cosine_sim ieee [(''0'', 1), (''1'', 1)] [(''0'', 1)]
   \<and> cosine_sim ieee [(''0'', 1), (''1'', 1)] [] = 0
   \<and> magnitude exact [(''0'', 0)] = 0
   \<and> cosine_sim exact [(''0'', 1), (''1'', 1)] [(''0'', 0)] = 0"
  using cosine_sim_bounds[of "[(''0'', 1), (''1'', 1)]" "[(''0'', 1)]" exact]
    cosine_sim_bounds[of "[(''0'', 1), (''1'', 1)]" "[]" ieee]
    cosine_sim_bounds[of "[(''0'', 1), (''1'', 1)]" "[(''0'', 0)]" exact]
  by (simp add: cosine_sim_exact get_default_def magnitude_def)

text \<open>
  C8 as stated fails on the code. The vector \<open>{'0': 1.0, '1': 1.0, '2': 1.0}\<close> has
  non-negative weights. Scored against itself in doubles, \<open>dot\<close> is \<open>3.0\<close>, each
  magnitude is \<open>sqrt(3.0) = 1.7320508075688772\<close>, their product rounds to
  \<open>2.9999999999999996\<close> and the quotient to \<open>1.0000000000000002\<close>, one unit in the last
  place above 1. All the sums are exact, so neither the order in which the key set is
  traversed nor the summation algorithm changes the value.
\<close>

theorem cosine_sim_exceeds_one:
  "map snd ones = [1, 1, 1]
   \<and> cosine_sim ieee ones ones = 1 + 1 / 2 ^ 52
   \<and> 1 < cosine_sim ieee ones ones"
proof -
  have "cosine_sim ieee ones ones = 1 + 1 / 2 ^ 52" by (rule cosine_ieee_ones)
  then show ?thesis by (simp add: ones_def)
qed

subsection \<open>One-entry corpus\<close>

lemma idf_value_single: "A = exact \<or> A = ieee \<Longrightarrow> idf_value A [t] w = 0"
  by (simp add: idf_value_def df_count_def zero_arithmetic)

text \<open>
  C9. In a corpus of one entry every token has document frequency 1 and \<open>idf = ln 1 = 0\<close>,
  every stored weight of the entry's vector is 0, its magnitude is 0, and the ranking of
  any query vector against it is the single score 0 at position 0: over the reals and in
  doubles, where \<open>1 / 1\<close>, \<open>log(1.0)\<close>, a product with \<open>0.0\<close>, a sum of zeros and its square
  root are all exact.
\<close>

theorem single_entry_scores_zero:
  assumes "A = exact \<or> A = ieee"
  shows "\<exists>d v. build_tfidf A [e] = Inr d
      \<and> (\<forall>w\<in>set (vocab d). df_count [tokenize e] w = 1)
      \<and> (\<forall>wy\<in>set (idf d). snd wy = 0)
      \<and> vectors d = [v]
      \<and> (\<forall>kx\<in>set v. snd kx = 0)
      \<and> magnitude A v = 0
      \<and> (\<forall>q. cosine_sim A q v = 0)
      \<and> (\<forall>q. ranked A q (vectors d) = [(0, 0)])"
proof -
  have pos: "\<And>x y. 0 < x \<Longrightarrow> 0 < y \<Longrightarrow> 0 < fdiv A x y"
    using assms by (rule positive_division)
  obtain d where d: "build_tfidf A [e] = Inr d"
    "vocab d = sort (remdups (concat (map tokenize [e])))"
    "set (idf d) \<subseteq> (\<lambda>w. (w, idf_value A (map tokenize [e]) w)) ` set (vocab d)"
    "length (vectors d) = length [e]"
    "\<forall>v\<in>set (vectors d). \<forall>kx\<in>set v. \<exists>w i c n y. i < length (vocab d) \<and> fst kx = str_nat i
            \<and> (w, y) \<in> set (idf d) \<and> snd kx = fmul A (fdiv A (real c) (real n)) y"
    using build_tfidf_shape[OF pos, of "[e]"] by blast
  obtain v where v: "vectors d = [v]"
    using d(4) by (cases "vectors d") auto
  have df: "\<forall>w\<in>set (vocab d). df_count [tokenize e] w = 1"
    using d(2) by (simp add: df_count_def)
  have i0: "\<forall>wy\<in>set (idf d). snd wy = 0"
    using d(3) by (auto simp: idf_value_single[OF assms])
  have v0: "\<forall>kx\<in>set v. snd kx = 0"
  proof
    fix kx assume "kx \<in> set v"
    with d(5) v obtain w c n y where
      "(w, y) \<in> set (idf d)" "snd kx = fmul A (fdiv A (real c) (real n)) y"
      by fastforce
    with i0 have "snd kx = fmul A (fdiv A (real c) (real n)) 0" by force
    then show "snd kx = 0" by (simp only: zero_arithmetic(2)[OF assms])
  qed
  have "map (\<lambda>x. fmul A x x) (map snd v) = replicate (length v) 0"
    using v0 by (induction v) (simp_all add: zero_arithmetic(2)[OF assms])
  then have "fsqrt A (fsum A (map (\<lambda>x. fmul A x x) (map snd v))) = 0"
    by (simp only: zero_arithmetic(3)[OF assms])
  then have m0: "magnitude A v = 0" by (simp add: magnitude_def)
  have c0: "\<forall>q. cosine_sim A q v = 0"
    using m0 cosine_sim_zero_magnitude by blast
  have r0: "\<forall>q. ranked A q (vectors d) = [(0, 0)]"
    using c0 by (simp add: ranked_def v enumerate_eq_zip)
  show ?thesis using d(1) df i0 v v0 m0 c0 r0 by blast
qed

lemma tokenize_cs: "tokenize ''clear | Clears.'' = [''clear'', ''clears'']"
  by code_simp

lemma build_single:
  "build_tfidf exact [''clear | Clears.''] =
     Inr \<lparr>vocab = [''clear'', ''clears''], idf = [(''clear'', 0), (''clears'', 0)],
          vectors = [[(''0'', 0), (''1'', 0)]]\<rparr>"
  by (simp add: build_defs tokenize_cs str_nat_digits)

lemma build_single_ieee:
  "build_tfidf ieee [''clear | Clears.''] =
     Inr \<lparr>vocab = [''clear'', ''clears''], idf = [(''clear'', 0), (''clears'', 0)],
          vectors = [[(''0'', 0), (''1'', 0)]]\<rparr>"
  by (simp add: build_defs tokenize_cs str_nat_digits ieee_simps binary64_one binary64_zero)

theorem single_entry_scores_zero_witness:
  "(\<exists>d. build_tfidf exact [''clear | Clears.''] = Inr d
      \<and> idf d = [(''clear'', 0), (''clears'', 0)]
      \<and> vectors d = [[(''0'', 0), (''1'', 0)]]
      \<and> df_count [tokenize ''clear | Clears.''] ''clear'' = 1
      \<and> cosine_sim exact [(''0'', 1)] [(''0'', 0), (''1'', 0)] = 0
      \<and> ranked exact [(''0'', 1)] (vectors d) = [(0, 0)])
   \<and> (\<exists>d. build_tfidf ieee [''clear | Clears.''] = Inr d
      \<and> idf d = [(''clear'', 0), (''clears'', 0)]
      \<and> vectors d = [[(''0'', 0), (''1'', 0)]]
      \<and> cosine_sim ieee [(''0'', 1)] [(''0'', 0), (''1'', 0)] = 0
      \<and> ranked ieee [(''0'', 1)] (vectors d) = [(0, 0)])"
  using single_entry_scores_zero[of exact "''clear | Clears.''"]
    single_entry_scores_zero[of ieee "''clear | Clears.''"]
  by (auto simp: build_single build_single_ieee tokenize_cs df_count_def)

subsection \<open>Module registry\<close>

lemma last_occurrence_snoc_same:
  assumes "g r = name"
  shows "(i < Suc (length recs) \<and> g ((recs @ [r]) ! i) = name
          \<and> (\<forall>j. i < j \<and> j < Suc (length recs) \<longrightarrow> g ((recs @ [r]) ! j) \<noteq> name))
         \<longleftrightarrow> i = length recs"
proof
  assume h: "i < Suc (length recs) \<and> g ((recs @ [r]) ! i) = name
          \<and> (\<forall>j. i < j \<and> j < Suc (length recs) \<longrightarrow> g ((recs @ [r]) ! j) \<noteq> name)"
  show "i = length recs"
  proof (rule ccontr)
    assume "i \<noteq> length recs"
    with h have "i < length recs" by simp
    with h have "g ((recs @ [r]) ! length recs) \<noteq> name" by blast
    with assms show False by simp
  qed
next
  assume "i = length recs"
  with assms show "i < Suc (length recs) \<and> g ((recs @ [r]) ! i) = name
          \<and> (\<forall>j. i < j \<and> j < Suc (length recs) \<longrightarrow> g ((recs @ [r]) ! j) \<noteq> name)"
    by auto
qed

lemma last_occurrence_snoc_other:
  assumes "g r \<noteq> name"
  shows "(i < Suc (length recs) \<and> g ((recs @ [r]) ! i) = name
          \<and> (\<forall>j. i < j \<and> j < Suc (length recs) \<longrightarrow> g ((recs @ [r]) ! j) \<noteq> name))
         \<longleftrightarrow> (i < length recs \<and> g (recs ! i) = name
          \<and> (\<forall>j. i < j \<and> j < length recs \<longrightarrow> g (recs ! j) \<noteq> name))"
proof
  assume h: "i < Suc (length recs) \<and> g ((recs @ [r]) ! i) = name
          \<and> (\<forall>j. i < j \<and> j < Suc (length recs) \<longrightarrow> g ((recs @ [r]) ! j) \<noteq> name)"
  have il: "i < length recs"
  proof (rule ccontr)
    assume "\<not> i < length recs"
    with h have "i = length recs" by simp
    with h assms show False by simp
  qed
  moreover have "g (recs ! i) = name" using h il by (simp add: nth_append)
  moreover have "g (recs ! j) \<noteq> name" if "i < j \<and> j < length recs" for j
  proof -
    from that h have "g ((recs @ [r]) ! j) \<noteq> name" by simp
    with that show ?thesis by (simp add: nth_append)
  qed
  ultimately show "i < length recs \<and> g (recs ! i) = name
          \<and> (\<forall>j. i < j \<and> j < length recs \<longrightarrow> g (recs ! j) \<noteq> name)" by blast
next
  assume h: "i < length recs \<and> g (recs ! i) = name
          \<and> (\<forall>j. i < j \<and> j < length recs \<longrightarrow> g (recs ! j) \<noteq> name)"
  have "g ((recs @ [r]) ! j) \<noteq> name" if "i < j \<and> j < Suc (length recs)" for j
  proof (cases "j < length recs")
    case True
    with that h show ?thesis by (simp add: nth_append)
  next
    case False
    with that have "j = length recs" by simp
    with assms show ?thesis by simp
  qed
  with h show "i < Suc (length recs) \<and> g ((recs @ [r]) ! i) = name
          \<and> (\<forall>j. i < j \<and> j < Suc (length recs) \<longrightarrow> g ((recs @ [r]) ! j) \<noteq> name)"
    by (simp add: nth_append)
qed

lemma registry_lookup:
  "map_of (fold register (enumerate 0 recs) []) name = Some i \<longleftrightarrow>
     name \<noteq> [] \<and> i < length recs \<and> parse_op_name (recs ! i) = name
     \<and> (\<forall>j. i < j \<and> j < length recs \<longrightarrow> parse_op_name (recs ! j) \<noteq> name)"
proof (induction recs arbitrary: i rule: rev_induct)
  case Nil
  then show ?case by simp
next
  case (snoc r recs)
  let ?m = "fold register (enumerate 0 recs) []"
  let ?n = "length recs"
  have f: "fold register (enumerate 0 (recs @ [r])) [] = register (?n, r) ?m"
    by (simp add: enumerate_append_eq)
  have len: "length (recs @ [r]) = Suc ?n" by simp
  show ?case
  proof (cases "parse_op_name r = name")
    case True
    show ?thesis
    proof (cases "name = []")
      case e: True
      with True have "register (?n, r) ?m = ?m" by (simp add: register_def parse_op_name_def)
      with e show ?thesis using snoc.IH[of i] by (simp add: f)
    next
      case ne: False
      with True have "map_of (register (?n, r) ?m) name = Some ?n"
        by (simp add: register_def parse_op_name_def update_conv')
      then have "map_of (fold register (enumerate 0 (recs @ [r])) []) name = Some i \<longleftrightarrow> i = ?n"
        unfolding f by auto
      then show ?thesis
        unfolding len last_occurrence_snoc_same[of parse_op_name, OF True] using ne by simp
    qed
  next
    case False
    then have "map_of (register (?n, r) ?m) name = map_of ?m name"
      by (auto simp: register_def parse_op_name_def update_conv' Let_def)
    then have "map_of (fold register (enumerate 0 (recs @ [r])) []) name = Some i
        \<longleftrightarrow> map_of ?m name = Some i"
      unfolding f by simp
    then show ?thesis
      unfolding len last_occurrence_snoc_other[of parse_op_name, OF False] using snoc.IH[of i]
      by simp
  qed
qed

lemma module_map_of_lookup:
  "map_of (module_map_of content) name = Some i \<longleftrightarrow>
     name \<noteq> [] \<and> i < length (records content) \<and> parse_op_name (records content ! i) = name
     \<and> (\<forall>j. i < j \<and> j < length (records content) \<longrightarrow> parse_op_name (records content ! j) \<noteq> name)"
  using registry_lookup[of "records content" name i]
  by (simp add: module_map_of_def)

lemma load_module_id_map_fresh:
  assumes "cache w = None" and "read_text (fs w) (manifest_path w source_dir) = Inr content"
  shows "load_module_id_map w source_dir =
           (Inr (module_map_of content), w\<lparr>cache := Some (source_dir, module_map_of content)\<rparr>)"
proof -
  obtain y where "map_of (fs w) (manifest_path w source_dir) = Some y"
    using assms(2) by (auto simp: read_text_def split: option.splits)
  then show ?thesis using assms by (simp add: load_module_id_map_def Let_def)
qed

text \<open>
  C2, as the code has it. With an empty cache and a readable manifest the registry maps a
  name to \<open>i\<close> exactly when the name is not empty and \<open>i\<close> is the position of the last
  record with that name among all non-blank records of the file; a record with an empty
  name gets no id but still takes up its position. So the ids are \<open>0, ..., k-1\<close> when no
  record has an empty name and no name occurs twice.
\<close>

theorem module_ids_follow_record_position:
  assumes "cache w = None" and "read_text (fs w) (manifest_path w source_dir) = Inr content"
  shows "\<exists>m. fst (load_module_id_map w source_dir) = Inr m
           \<and> (\<forall>name i. map_of m name = Some i \<longleftrightarrow>
                 name \<noteq> [] \<and> i < length (records content)
                 \<and> parse_op_name (records content ! i) = name
                 \<and> (\<forall>j. i < j \<and> j < length (records content)
                        \<longrightarrow> parse_op_name (records content ! j) \<noteq> name))
           \<and> ((\<forall>e\<in>set (records content). parse_op_name e \<noteq> [])
                \<and> distinct (map parse_op_name (records content))
                \<longrightarrow> (\<forall>i<length (records content).
                       map_of m (parse_op_name (records content ! i)) = Some i))"
proof -
  let ?m = "module_map_of content"
  let ?rs = "records content"
  have a: "fst (load_module_id_map w source_dir) = Inr ?m"
    using load_module_id_map_fresh[OF assms] by simp
  have b: "\<forall>name i. map_of ?m name = Some i \<longleftrightarrow>
                 name \<noteq> [] \<and> i < length ?rs \<and> parse_op_name (?rs ! i) = name
                 \<and> (\<forall>j. i < j \<and> j < length ?rs \<longrightarrow> parse_op_name (?rs ! j) \<noteq> name)"
    using module_map_of_lookup by blast
  have c: "map_of ?m (parse_op_name (?rs ! i)) = Some i"
    if h: "\<forall>e\<in>set ?rs. parse_op_name e \<noteq> []" "distinct (map parse_op_name ?rs)"
      and i: "i < length ?rs" for i
  proof -
    have "parse_op_name (?rs ! i) \<noteq> []" using h(1) i by simp
    moreover have "parse_op_name (?rs ! j) \<noteq> parse_op_name (?rs ! i)"
      if "i < j \<and> j < length ?rs" for j
    proof -
      have "map parse_op_name ?rs ! j \<noteq> map parse_op_name ?rs ! i"
        using h(2) that i by (simp only: nth_eq_iff_index_eq length_map) simp
      then show ?thesis using that i by simp
    qed
    ultimately show ?thesis using i b by blast
  qed
  show ?thesis using a b c by blast
qed

lemma manifest_skip_eval:
  "records manifest_skip = [''| x'', ''beta | y'']"
  "parse_op_name ''| x'' = []"
  "parse_op_name ''beta | y'' = ''beta''"
  "module_map_of manifest_skip = [(''beta'', 1)]"
  unfolding manifest_skip_def by code_simp+

lemma manifest_two_eval:
  "module_map_of manifest_two = [(''alpha'', 0), (''beta'', 1)]"
  unfolding manifest_two_def by code_simp

text \<open>
  C2 as stated fails: after a record with an empty name, \<open>beta\<close> is the first record
  that is not skipped, and its id is 1, not 0.
\<close>

theorem skipped_record_keeps_its_position:
  "records manifest_skip = [''| x'', ''beta | y'']
   \<and> parse_op_name ''| x'' = []
   \<and> parse_op_name ''beta | y'' = ''beta''
   \<and> fst (load_module_id_map
            \<lparr>fs = [([''src'', ''vector-categories.txt''], Plain manifest_skip None)],
             base = [''vc-database''], cache = None\<rparr> (Some [''src''])) = Inr [(''beta'', 1)]"
  by (simp add: manifest_skip_eval load_module_id_map_def manifest_path_def read_text_def Let_def)

theorem module_ids_follow_record_position_witness:
  "cache \<lparr>fs = [([''src'', ''vector-categories.txt''], Plain manifest_two None)],
          base = [''vc-database''], cache = None\<rparr> = None
   \<and> read_text [([''src'', ''vector-categories.txt''], Plain manifest_two None)]
        [''src'', ''vector-categories.txt''] = Inr manifest_two
   \<and> (\<exists>m. fst (load_module_id_map
            \<lparr>fs = [([''src'', ''vector-categories.txt''], Plain manifest_two None)],
             base = [''vc-database''], cache = None\<rparr> (Some [''src''])) = Inr m
         \<and> map_of m ''alpha'' = Some 0 \<and> map_of m ''beta'' = Some 1)"
  using module_ids_follow_record_position[of
      "\<lparr>fs = [([''src'', ''vector-categories.txt''], Plain manifest_two None)],
        base = [''vc-database''], cache = None\<rparr>" "Some [''src'']" manifest_two]
  by (simp add: manifest_two_eval load_module_id_map_def manifest_path_def read_text_def Let_def)

subsection \<open>Failures of a query\<close>

lemma load_module_id_map_fs: "fs (snd (load_module_id_map w sd)) = fs w"
  by (auto simp: load_module_id_map_def Let_def split: option.splits sum.splits if_splits)

lemma traverse_fails:
  assumes "x \<in> set xs" "f x = Inl e"
  shows "\<exists>e'. traverse f xs = Inl e'"
proof (cases "traverse f xs")
  case (Inl e')
  then show ?thesis by blast
next
  case (Inr ys)
  then have "map f xs = map Inr ys" by (simp add: traverse_Inr_iff)
  then have "f x \<in> set (map Inr ys)" using assms(1) by (metis image_eqI set_map)
  with assms(2) show ?thesis by auto
qed

lemma json_load_unreadable:
  "map_of files p = None \<or> (\<exists>s. map_of files p = Some (Plain s None))
     \<Longrightarrow> \<exists>e. json_load files p = Inl e"
  by (auto simp: json_load_def)

lemma search_internal_unreadable:
  "json_load files p = Inl e \<Longrightarrow> search_internal A query files p top_k mm = Inl e"
  by (simp add: search_internal_def)

lemma search_internal_no_tokens:
  "json_load files p = Inr j \<Longrightarrow> tokenize query = []
     \<Longrightarrow> search_internal A query files p top_k mm = Inr []"
  by (simp add: search_internal_def)

lemma subscript_Inr:
  "subscript db field = Inr x \<Longrightarrow> \<exists>d. db = JObject d \<and> field d = Some x"
  by (auto simp: subscript_def split: jsonval.splits option.splits)

lemma search_internal_readable:
  assumes "search_internal A query files p top_k mm = Inr rs"
  shows "\<exists>j. json_load files p = Inr j
           \<and> (tokenize query = []
               \<or> (\<exists>d. j = JObject d \<and> doc_vocab d \<noteq> None \<and> doc_idf d \<noteq> None
                      \<and> doc_vectors d \<noteq> None))"
proof (cases "json_load files p")
  case (Inl e)
  then show ?thesis using assms by (simp add: search_internal_def)
next
  case (Inr j)
  show ?thesis
  proof (cases "tokenize query = []")
    case True
    with Inr show ?thesis by simp
  next
    case False
    obtain vl where vl: "subscript j doc_vocab = Inr vl"
      using assms Inr False by (cases "subscript j doc_vocab") (simp_all add: search_internal_def)
    obtain il where il: "subscript j doc_idf = Inr il"
      using assms Inr False vl by (cases "subscript j doc_idf") (simp_all add: search_internal_def)
    obtain q where q: "query_vector A vl il (tokenize query) = Inr q"
      using assms Inr False vl il
      by (cases "query_vector A vl il (tokenize query)") (simp_all add: search_internal_def)
    obtain vs where vs: "subscript j doc_vectors = Inr vs"
      using assms Inr False vl il q
      by (cases "subscript j doc_vectors") (simp_all add: search_internal_def)
    from subscript_Inr[OF vl] subscript_Inr[OF il] subscript_Inr[OF vs] Inr
    show ?thesis by auto
  qed
qed

lemma search_cases:
  "fst (search A query w p top_k) =
     (case fst (load_module_id_map w None) of
        Inl e \<Rightarrow> Inl e
      | Inr mm \<Rightarrow> search_internal A query (fs w) p top_k mm)"
proof -
  obtain r w' where l: "load_module_id_map w None = (r, w')" by (cases "load_module_id_map w None")
  then have "fs w' = fs w" using load_module_id_map_fs[of w None] by simp
  with l show ?thesis by (cases r) (simp_all add: search_def)
qed

lemma search_all_cases:
  "fst (search_all A query w dir top_k) =
     (case fst (load_module_id_map w None) of
        Inl e \<Rightarrow> Inl e
      | Inr mm \<Rightarrow>
          (case traverse (\<lambda>dat. search_internal A query (fs w) dat top_k mm) (glob_dat (fs w) dir) of
             Inl e \<Rightarrow> Inl e
           | Inr rss \<Rightarrow> Inr (slice_to top_k (sort_key (\<lambda>r. - similarity r) (concat rss)))))"
proof -
  obtain r w' where l: "load_module_id_map w None = (r, w')" by (cases "load_module_id_map w None")
  then have "fs w' = fs w" using load_module_id_map_fs[of w None] by simp
  with l show ?thesis by (cases r) (simp_all add: search_all_def split: sum.splits)
qed

text \<open>
  C3, as the code has it, for every arithmetic and every query. \<open>search\<close> ends in an
  exception when the index file is missing or \<open>json.load\<close> rejects its text. It returns
  an empty list only when \<open>json.load\<close> accepted the file, and then either the query has
  no token or the value read is an object with the keys \<open>vocab\<close>, \<open>idf\<close> and \<open>vectors\<close>.
  A query with no token gets the empty list from every file that \<open>json.load\<close> accepts,
  an index or not, because line 144 returns before the value is looked at.
  \<open>search_all\<close> ends in an exception when \<open>json.load\<close> rejects a \<open>*.dat\<close> file of the
  directory; when the directory is missing or holds no \<open>*.dat\<close> file, and the registry
  loads, it returns the empty list.
\<close>

theorem query_failures_surface:
  "(map_of (fs w) db_path = None \<or> (\<exists>s. map_of (fs w) db_path = Some (Plain s None))
      \<longrightarrow> (\<exists>e. fst (search A query w db_path top_k) = Inl e))
   \<and> (fst (search A query w db_path top_k) = Inr []
      \<longrightarrow> (\<exists>j. json_load (fs w) db_path = Inr j
             \<and> (tokenize query = []
                 \<or> (\<exists>d. j = JObject d \<and> doc_vocab d \<noteq> None \<and> doc_idf d \<noteq> None
                        \<and> doc_vectors d \<noteq> None))))
   \<and> (tokenize query = [] \<and> (\<exists>j. json_load (fs w) db_path = Inr j)
        \<and> (\<exists>mm. fst (load_module_id_map w None) = Inr mm)
      \<longrightarrow> fst (search A query w db_path top_k) = Inr [])
   \<and> ((\<exists>p\<in>set (glob_dat (fs w) build_dir). \<exists>s. map_of (fs w) p = Some (Plain s None))
      \<longrightarrow> (\<exists>e. fst (search_all A query w build_dir top_k) = Inl e))
   \<and> (glob_dat (fs w) build_dir = [] \<and> (\<exists>mm. fst (load_module_id_map w None) = Inr mm)
      \<longrightarrow> fst (search_all A query w build_dir top_k) = Inr [])"
proof (intro conjI impI)
  assume "map_of (fs w) db_path = None \<or> (\<exists>s. map_of (fs w) db_path = Some (Plain s None))"
  then obtain e where "json_load (fs w) db_path = Inl e"
    using json_load_unreadable by blast
  then show "\<exists>e. fst (search A query w db_path top_k) = Inl e"
    by (cases "fst (load_module_id_map w None)")
       (simp_all add: search_cases search_internal_unreadable)
next
  assume a: "fst (search A query w db_path top_k) = Inr []"
  then obtain mm where "search_internal A query (fs w) db_path top_k mm = Inr []"
    by (cases "fst (load_module_id_map w None)") (simp_all add: search_cases)
  then show "\<exists>j. json_load (fs w) db_path = Inr j
             \<and> (tokenize query = []
                 \<or> (\<exists>d. j = JObject d \<and> doc_vocab d \<noteq> None \<and> doc_idf d \<noteq> None
                        \<and> doc_vectors d \<noteq> None))"
    by (rule search_internal_readable)
next
  assume "tokenize query = [] \<and> (\<exists>j. json_load (fs w) db_path = Inr j)
        \<and> (\<exists>mm. fst (load_module_id_map w None) = Inr mm)"
  then obtain j mm where "tokenize query = []" "json_load (fs w) db_path = Inr j"
    "fst (load_module_id_map w None) = Inr mm" by blast
  then show "fst (search A query w db_path top_k) = Inr []"
    by (simp add: search_cases search_internal_no_tokens)
next
  assume "\<exists>p\<in>set (glob_dat (fs w) build_dir). \<exists>s. map_of (fs w) p = Some (Plain s None)"
  then obtain p s where p: "p \<in> set (glob_dat (fs w) build_dir)"
    "map_of (fs w) p = Some (Plain s None)"
    by blast
  then obtain e where e: "json_load (fs w) p = Inl e" using json_load_unreadable by blast
  show "\<exists>e. fst (search_all A query w build_dir top_k) = Inl e"
  proof (cases "fst (load_module_id_map w None)")
    case (Inl e')
    then show ?thesis by (simp add: search_all_cases)
  next
    case (Inr mm)
    have "search_internal A query (fs w) p top_k mm = Inl e"
      using e by (rule search_internal_unreadable)
    then obtain e' where
      "traverse (\<lambda>dat. search_internal A query (fs w) dat top_k mm) (glob_dat (fs w) build_dir) = Inl e'"
      using traverse_fails[OF p(1), of "\<lambda>dat. search_internal A query (fs w) dat top_k mm" e]
      by blast
    with Inr show ?thesis by (simp add: search_all_cases)
  qed
next
  assume "glob_dat (fs w) build_dir = [] \<and> (\<exists>mm. fst (load_module_id_map w None) = Inr mm)"
  then show "fst (search_all A query w build_dir top_k) = Inr []"
    by (auto simp: search_all_cases slice_to_def)
qed

lemma world_bad_eval:
  "fst (load_module_id_map world_bad None) = Inr []"
  "glob_dat (fs world_bad) [''vectors''] = [[''vectors'', ''bad.dat'']]"
  "glob_dat (fs world_bad) [''shapeless''] = [[''shapeless'', ''empty.dat'']]"
  "glob_dat (fs world_bad) [''nowhere''] = []"
  by (simp_all add: world_bad_def load_module_id_map_def manifest_path_def glob_dat_def Let_def)

lemma world_bad_files:
  "map_of (fs world_bad) [''vectors'', ''gone.dat''] = None"
  "map_of (fs world_bad) [''vectors'', ''bad.dat''] = Some (Plain ''not json'' None)"
  "map_of (fs world_bad) [''shapeless'', ''empty.dat''] = Some (Plain ''{}'' (Some empty_object))"
  by (simp_all add: world_bad_def)

lemma tokenize_samples:
  "tokenize ''add'' = [''add'']" "tokenize ''?!'' = []" "tokenize '''' = []"
  by code_simp+

text \<open>
  C3 as stated fails twice. On a file system with no file at all, where the queried
  directory is missing, \<open>search_all\<close> returns the empty list and reports nothing. And
  \<open>search\<close>, asked the query \<open>?!\<close>, which has no token, of a file whose text is \<open>{}\<close>,
  valid JSON that is no index, returns the empty list as well.
\<close>

theorem empty_result_without_failure:
  "fs world_empty = []
   \<and> glob_dat (fs world_empty) [''vectors''] = []
   \<and> fst (search_all ieee ''add numbers'' world_empty [''vectors''] 1) = Inr []
   \<and> map_of (fs world_bad) [''shapeless'', ''empty.dat''] = Some (Plain ''{}'' (Some empty_object))
   \<and> fst (search ieee ''?!'' world_bad [''shapeless'', ''empty.dat''] 1) = Inr []
   \<and> fst (search_all ieee ''?!'' world_bad [''shapeless''] 1) = Inr []"
proof -
  have "fst (search_all ieee ''add numbers'' world_empty [''vectors''] 1) = Inr []"
    by (simp add: world_empty_def search_all_def load_module_id_map_def manifest_path_def
        glob_dat_def slice_to_def Let_def)
  moreover have "glob_dat (fs world_empty) [''vectors''] = []"
    by (simp add: world_empty_def glob_dat_def)
  moreover have s: "search_internal ieee ''?!'' (fs world_bad) [''shapeless'', ''empty.dat''] 1 [] = Inr []"
    by (simp add: search_internal_def json_load_def world_bad_files tokenize_samples)
  then have "fst (search ieee ''?!'' world_bad [''shapeless'', ''empty.dat''] 1) = Inr []"
    by (simp add: search_cases world_bad_eval)
  moreover have "fst (search_all ieee ''?!'' world_bad [''shapeless''] 1) = Inr []"
    using s by (simp add: search_all_cases world_bad_eval slice_to_def sort_key_def)
  ultimately show ?thesis by (simp add: world_bad_files) (simp add: world_empty_def)
qed

theorem query_failures_surface_witness:
  "map_of (fs world_bad) [''vectors'', ''gone.dat''] = None
   \<and> fst (search ieee ''add'' world_bad [''vectors'', ''gone.dat''] 1) = Inl FileNotFoundError
   \<and> map_of (fs world_bad) [''vectors'', ''bad.dat''] = Some (Plain ''not json'' None)
   \<and> fst (search ieee ''add'' world_bad [''vectors'', ''bad.dat''] 1) = Inl JSONDecodeError
   \<and> json_load (fs world_bad) [''shapeless'', ''empty.dat''] = Inr empty_object
   \<and> fst (search ieee ''add'' world_bad [''shapeless'', ''empty.dat''] 1) = Inl KeyError
   \<and> fst (search ieee '''' world_bad [''shapeless'', ''empty.dat''] 1) = Inr []
   \<and> [''vectors'', ''bad.dat''] \<in> set (glob_dat (fs world_bad) [''vectors''])
   \<and> fst (search_all ieee ''add'' world_bad [''vectors''] 1) = Inl JSONDecodeError
   \<and> glob_dat (fs world_bad) [''nowhere''] = []
   \<and> fst (search_all ieee ''add'' world_bad [''nowhere''] 1) = Inr []"
  using query_failures_surface[of world_bad "[''vectors'', ''gone.dat'']" ieee "''add''" 1 "[''nowhere'']"]
    query_failures_surface[of world_bad "[''vectors'', ''bad.dat'']" ieee "''add''" 1 "[''vectors'']"]
    query_failures_surface[of world_bad "[''shapeless'', ''empty.dat'']" ieee "''''" 1 "[''nowhere'']"]
  by (simp add: world_bad_eval world_bad_files search_cases search_all_cases search_internal_def
      json_load_def tokenize_samples subscript_def empty_object_def)

subsection \<open>Ranking\<close>





lemma scores_as_map:
  "map (\<lambda>(i, v). (i, cosine_sim A q v)) (enumerate 0 vs)
     = map (\<lambda>i. (i, cosine_sim A q (vs ! i))) [0 ..< length vs]"
  by (rule nth_equalityI) (simp_all add: nth_enumerate_eq)

lemma ranked_set: "set (ranked A q vs) = (\<lambda>i. (i, cosine_sim A q (vs ! i))) ` {..<length vs}"
  by (simp add: ranked_def scores_as_map atLeast0LessThan)



lemma slice_to_subset: "set (slice_to k xs) \<subseteq> set xs"
  unfolding slice_to_def by (cases "0 \<le> k") (simp_all add: set_take_subset)

lemma subscript_document_of:
  "subscript (document_of db) doc_vocab = Inr (vocab db)"
  "subscript (document_of db) doc_idf = Inr (idf db)"
  "subscript (document_of db) doc_vectors = Inr (vectors db)"
  "subscript (document_of db) doc_entries = Inr (entries db)"
  "subscript (document_of db) doc_metadata = Inr (metadata db)"
  by (simp_all add: subscript_def document_of_def)

lemma search_internal_value:
  assumes "json_load files p = Inr (document_of db)"
      and "length (vectors db) = length (entries db)"
      and "tokenize query \<noteq> []"
      and "query_vector A (vocab db) (idf db) (tokenize query) = Inr q"
  shows "search_internal A query files p k mm =
           Inr (map (\<lambda>(i, s). enrich_result (entries db ! i) i s (path_stem p) mm)
                  (slice_to k (ranked A q (vectors db))))"
proof -
  define G :: "nat \<times> real \<Rightarrow> error + result" where
    "G = (\<lambda>(i, s). case list_item (entries db) i of
                                Inl e \<Rightarrow> Inl e
                              | Inr en \<Rightarrow> Inr (enrich_result en i s (path_stem p) mm))"
  define H :: "nat \<times> real \<Rightarrow> result" where
    "H = (\<lambda>(i, s). enrich_result (entries db ! i) i s (path_stem p) mm)"
  have GH: "G x = Inr (H x)" if "x \<in> set (slice_to k (ranked A q (vectors db)))" for x
  proof -
    have "x \<in> set (ranked A q (vectors db))" by (rule subsetD[OF slice_to_subset that])
    then have "fst x < length (entries db)" using assms(2) by (auto simp: ranked_set)
    then show ?thesis by (cases x) (simp add: list_item_def G_def H_def)
  qed
  have "traverse G (slice_to k (ranked A q (vectors db)))
             = Inr (map H (slice_to k (ranked A q (vectors db))))"
    by (rule traverse_total) (rule GH)
  moreover have "search_internal A query files p k mm
      = traverse G (slice_to k (ranked A q (vectors db)))"
    using assms(1,3,4) by (simp add: search_internal_def Let_def G_def subscript_document_of)
  ultimately show ?thesis by (simp only: H_def)
qed


subsection \<open>The example of the test suite\<close>

lemma source_records: "records source_text = [entry_add, entry_print]"
  unfolding source_text_def entry_add_def entry_print_def by code_simp

lemma source_tokens:
  "tokenize entry_add = [''add'', ''adds'', ''two'', ''numbers'', ''parameters'', ''a'', ''b'']"
  "tokenize entry_print = [''print'', ''prints'', ''a'', ''value'', ''parameters'', ''value'']"
  "tokenize ''how to add numbers'' = [''how'', ''to'', ''add'', ''numbers'']"
  unfolding entry_add_def entry_print_def by code_simp+

lemma source_vocab:
  "sort (remdups [''add'', ''adds'', ''two'', ''numbers'', ''parameters'', ''a'', ''b'',
       ''print'', ''prints'', ''a'', ''value'', ''parameters'', ''value''])
   = [''a'', ''add'', ''adds'', ''b'', ''numbers'', ''parameters'', ''print'', ''prints'', ''two'', ''value'']"
  by code_simp

lemma str_nat_sucs:
  "str_nat (Suc (Suc 0)) = ''2''"
  "str_nat (Suc (Suc (Suc 0))) = ''3''"
  "str_nat (Suc (Suc (Suc (Suc 0)))) = ''4''"
  "str_nat (Suc (Suc (Suc (Suc (Suc 0))))) = ''5''"
  "str_nat (Suc (Suc (Suc (Suc (Suc (Suc 0)))))) = ''6''"
  "str_nat (Suc (Suc (Suc (Suc (Suc (Suc (Suc 0))))))) = ''7''"
  "str_nat (Suc (Suc (Suc (Suc (Suc (Suc (Suc (Suc 0)))))))) = ''8''"
  "str_nat (Suc (Suc (Suc (Suc (Suc (Suc (Suc (Suc (Suc 0))))))))) = ''9''"
  by code_simp+

lemma widx: "zip [''a'', ''add'', ''adds'', ''b'', ''numbers'', ''parameters'', ''print'', ''prints'', ''two'', ''value''] [0 ..< 10]
  = [(''a'', 0), (''add'', 1), (''adds'', 2), (''b'', 3), (''numbers'', 4), (''parameters'', 5), (''print'', 6), (''prints'', 7), (''two'', 8), (''value'', 9::nat)]"
  by code_simp

lemma build_test:
  "build_tfidf exact [entry_add, entry_print] =
     Inr \<lparr>vocab = vocab index_test, idf = idf index_test, vectors = vectors index_test\<rparr>"
  by (simp add: build_defs source_tokens source_vocab widx str_nat_digits str_nat_sucs index_test_def)

lemma replace_name: "replace_txt ''mymod.txt'' = ''mymod.dat''" "path_stem [''vectors'', ''mymod.dat''] = ''mymod''"
  by code_simp+

lemma vectorize_test:
  "vectorize_file exact [([''source'', ''vector-categories.txt''], Plain manifest_test None),
                   ([''source'', ''mymod.txt''], Plain source_text None)]
     [''source'', ''mymod.txt''] [''vectors'']
   = Inr (True, [([''source'', ''vector-categories.txt''], Plain manifest_test None),
                   ([''source'', ''mymod.txt''], Plain source_text None),
                   ([''vectors'', ''mymod.dat''], Document (document_of index_test))])"
  by (simp add: vectorize_file_def read_text_def source_records build_test path_name_def
      replace_name index_test_def json_dump_def)

lemma query_test:
  "query_vector exact (vocab index_test) (idf index_test) [''how'', ''to'', ''add'', ''numbers'']
     = Inr [(''1'', ln 2 / 4), (''4'', ln 2 / 4)]"
  by (simp add: query_vector_def query_item_def index_test_def dict_of_def getitem_def
      get_default_def widx str_nat_digits str_nat_sucs)

lemma cosine_sim_pos:
  assumes "0 < sum_list (map (\<lambda>k. get_default v1 k 0 * get_default v2 k 0)
                  (remdups (map fst v1 @ map fst v2)))"
  shows "0 < cosine_sim exact v1 v2"
proof -
  let ?dot = "sum_list (map (\<lambda>k. get_default v1 k 0 * get_default v2 k 0)
                 (remdups (map fst v1 @ map fst v2)))"
  let ?S1 = "sum_list (map (\<lambda>x. x * x) (map snd v1))"
  let ?S2 = "sum_list (map (\<lambda>x. x * x) (map snd v2))"
  have "0 < ?dot\<^sup>2" using assms by simp
  also have "?dot\<^sup>2 \<le> ?S1 * ?S2" by (rule cosine_dot_le)
  finally have p: "0 < ?S1 * ?S2" .
  have n1: "0 \<le> ?S1" and n2: "0 \<le> ?S2" by (rule sumsq_nonneg)+
  have s1: "0 < ?S1" using p n1 n2 by (simp add: zero_less_mult_iff)
  have s2: "0 < ?S2" using p n1 n2 by (simp add: zero_less_mult_iff)
  have e1: "v1 \<noteq> []" using s1 by auto
  have e2: "v2 \<noteq> []" using s2 by auto
  have "0 < ?dot / (sqrt ?S1 * sqrt ?S2)" using assms s1 s2 by simp
  moreover have "cosine_sim exact v1 v2 = ?dot / (sqrt ?S1 * sqrt ?S2)"
    using e1 e2 s1 s2 by (simp add: cosine_sim_exact Let_def)
  ultimately show ?thesis by simp
qed

lemma ln2_pos: "0 < ln (2::real)"
  by simp

lemma score_add: "0 < cosine_sim exact query_test_vec (vectors index_test ! 0)"
proof (rule cosine_sim_pos)
  have "0 < ln 2 * ln (2::real)" using ln2_pos by simp
  then show "0 < sum_list (map (\<lambda>k. get_default query_test_vec k 0
                  * get_default (vectors index_test ! 0) k 0)
              (remdups (map fst query_test_vec @ map fst (vectors index_test ! 0))))"
    by (simp add: query_test_vec_def index_test_def get_default_def)
qed

lemma score_print: "cosine_sim exact query_test_vec (vectors index_test ! Suc 0) = 0"
  by (simp add: query_test_vec_def index_test_def cosine_sim_exact get_default_def)

lemma ranked_test:
  "ranked exact query_test_vec (vectors index_test)
     = [(0, cosine_sim exact query_test_vec (vectors index_test ! 0)), (1, 0)]"
proof -
  have v: "vectors index_test = [vectors index_test ! 0, vectors index_test ! Suc 0]"
    by (simp add: index_test_def)
  have "ranked exact query_test_vec [vectors index_test ! 0, vectors index_test ! Suc 0]
     = [(0, cosine_sim exact query_test_vec (vectors index_test ! 0)), (1, 0)]"
    using score_add by (simp add: ranked_def score_print)
  then show ?thesis using v by simp
qed

lemma enrich_test:
  "parse_op_name entry_add = ''add''"
  "parse_params entry_add = [''a'', ''b'']"
  "make_signature (Some 0) 0 [''a'', ''b''] = ''0.0(a, b)''"
  "parse_op_name entry_print = ''print''"
  unfolding entry_add_def entry_print_def by code_simp+

lemma manifest_test_eval: "module_map_of manifest_test = [(''mymod'', 0)]"
  unfolding manifest_test_def by code_simp

lemma search_test:
  "search_internal exact ''how to add numbers'' (fs world_indexed) [''vectors'', ''mymod.dat''] k mm
     = Inr (map (\<lambda>(i, s). enrich_result (entries index_test ! i) i s ''mymod'' mm)
              (slice_to k [(0, cosine_sim exact query_test_vec (vectors index_test ! 0)), (1, 0)]))"
proof -
  have jl: "json_load (fs world_indexed) [''vectors'', ''mymod.dat''] = Inr (document_of index_test)"
    by (simp add: world_indexed_def json_load_def)
  have len: "length (vectors index_test) = length (entries index_test)"
    by (simp add: index_test_def)
  have tk: "tokenize ''how to add numbers'' \<noteq> []" by (simp add: source_tokens)
  have q: "query_vector exact (vocab index_test) (idf index_test) (tokenize ''how to add numbers'') = Inr query_test_vec"
    by (simp add: source_tokens query_test query_test_vec_def)
  show ?thesis
    using search_internal_value[OF jl len tk q, of k mm]
    by (simp only: ranked_test replace_name)
qed

lemma build_test_doubles:
  "build_tfidf ieee [entry_add, entry_print] =
     Inr \<lparr>vocab = vocab index_test_doubles, idf = idf index_test_doubles,
          vectors = vectors index_test_doubles\<rparr>"
  by (simp add: build_defs source_tokens source_vocab widx str_nat_digits str_nat_sucs
      index_test_doubles_def ieee_simps binary64_one binary64_two binary64_zero Let_def)

lemma vectorize_test_doubles:
  "vectorize_file ieee (fs world_test) [''source'', ''mymod.txt''] [''vectors'']
     = Inr (True, fs world_indexed_doubles)"
  by (simp add: vectorize_file_def read_text_def source_records build_test_doubles path_name_def
      replace_name index_test_doubles_def json_dump_def world_test_def world_indexed_doubles_def
      Let_def)

lemma query_test_doubles:
  "query_vector ieee (vocab index_test_doubles) (idf index_test_doubles)
       [''how'', ''to'', ''add'', ''numbers'']
     = Inr query_test_vec_doubles"
  by (simp add: query_vector_def query_item_def index_test_doubles_def dict_of_def getitem_def
      get_default_def widx str_nat_digits str_nat_sucs ieee_simps query_test_vec_doubles_def
      Let_def)

lemma fsum_ieee_pos:
  assumes "\<forall>x\<in>set xs. 0 \<le> x" "0 < a \<or> (0 \<le> a \<and> (\<exists>x\<in>set xs. 0 < x))"
  shows "0 < foldl (\<lambda>a x. binary64 (a + x)) a xs"
  using assms
proof (induction xs arbitrary: a)
  case Nil
  then show ?case by simp
next
  case (Cons x xs)
  have x0: "0 \<le> x" using Cons.prems(1) by simp
  have a0: "0 \<le> a" using Cons.prems(2) by auto
  show ?case
  proof (cases "0 < a + x")
    case True
    then have "0 < binary64 (a + x)" by (rule binary64_pos)
    then show ?thesis using Cons.IH[of "binary64 (a + x)"] Cons.prems(1) by simp
  next
    case False
    then have z: "a = 0" "x = 0" using x0 a0 by auto
    then have "\<exists>y\<in>set xs. 0 < y" using Cons.prems(2) by auto
    then show ?thesis using Cons.IH[of "binary64 (a + x)"] Cons.prems(1) z
      by (simp add: binary64_zero)
  qed
qed

lemma magnitude_ieee_pos:
  assumes "(k, x) \<in> set v" "0 < x"
  shows "0 < magnitude ieee v"
proof -
  let ?sq = "map (\<lambda>x. binary64 (x * x)) (map snd v)"
  have "0 < binary64 (x * x)" using assms(2) by (intro binary64_pos mult_pos_pos)
  moreover have "binary64 (x * x) \<in> set ?sq" using assms(1) by force
  ultimately have "\<exists>y\<in>set ?sq. 0 < y" by blast
  moreover have "\<forall>y\<in>set ?sq. 0 \<le> y" by (auto simp: binary64_nonneg)
  ultimately have "0 < foldl (\<lambda>a x. binary64 (a + x)) 0 ?sq"
    by (intro fsum_ieee_pos) simp_all
  then have "0 < binary64 (sqrt (foldl (\<lambda>a x. binary64 (a + x)) 0 ?sq))"
    by (intro binary64_pos) simp
  moreover have "v \<noteq> []" using assms(1) by auto
  ultimately show ?thesis by (simp add: magnitude_def ieee_simps)
qed

lemma cosine_sim_ieee_pos:
  assumes "\<forall>x\<in>set (map snd v1). 0 \<le> x" "\<forall>x\<in>set (map snd v2). 0 \<le> x"
      and "map_of v1 k = Some x" "0 < x" "map_of v2 k = Some y" "0 < y"
  shows "0 < cosine_sim ieee v1 v2"
proof -
  let ?keys = "remdups (map fst v1 @ map fst v2)"
  let ?ps = "map (\<lambda>k. binary64 (get_default v1 k 0 * get_default v2 k 0)) ?keys"
  let ?dot = "foldl (\<lambda>a x. binary64 (a + x)) 0 ?ps"
  have m1: "(k, x) \<in> set v1" using assms(3) by (rule map_of_SomeD)
  have m2: "(k, y) \<in> set v2" using assms(5) by (rule map_of_SomeD)
  have "k \<in> set ?keys" using m1 by force
  moreover have "0 < binary64 (get_default v1 k 0 * get_default v2 k 0)"
    using assms(3-6) by (intro binary64_pos) (simp add: get_default_def)
  ultimately have "\<exists>p\<in>set ?ps. 0 < p" by auto
  moreover have "\<forall>p\<in>set ?ps. 0 \<le> p"
    by (auto intro!: binary64_nonneg mult_nonneg_nonneg get_default_nonneg assms(1,2))
  ultimately have d: "0 < ?dot" by (intro fsum_ieee_pos) simp_all
  have n1: "0 < magnitude ieee v1" using m1 assms(4) by (rule magnitude_ieee_pos)
  have n2: "0 < magnitude ieee v2" using m2 assms(6) by (rule magnitude_ieee_pos)
  have "0 < binary64 (magnitude ieee v1 * magnitude ieee v2)"
    using n1 n2 by (intro binary64_pos mult_pos_pos)
  then have "0 < ?dot / binary64 (magnitude ieee v1 * magnitude ieee v2)"
    using d by simp
  then have "0 < binary64 (?dot / binary64 (magnitude ieee v1 * magnitude ieee v2))"
    by (rule binary64_pos)
  then show ?thesis using n1 n2 by (simp add: cosine_sim_def Let_def ieee_simps)
qed

lemma ln2_double_pos: "0 < binary64 (ln 2)"
  by (rule binary64_pos) simp

lemma quotient_double_pos: "0 < binary64 (1 / 4)" "0 < binary64 (1 / 7)"
  by (rule binary64_pos, simp)+

lemma score_add_doubles:
  "0 < cosine_sim ieee query_test_vec_doubles (vectors index_test_doubles ! 0)"
proof -
  have q: "0 < binary64 (binary64 (1 / 4) * binary64 (ln 2))"
    by (intro binary64_pos mult_pos_pos) simp_all
  have w: "0 < binary64 (binary64 (1 / 7) * binary64 (ln 2))"
    by (intro binary64_pos mult_pos_pos) simp_all
  show ?thesis
  proof (rule cosine_sim_ieee_pos[where k = "''1''"])
    show "\<forall>x\<in>set (map snd query_test_vec_doubles). 0 \<le> x"
      using q by (simp add: query_test_vec_doubles_def)
    show "\<forall>x\<in>set (map snd (vectors index_test_doubles ! 0)). 0 \<le> x"
      using w by (simp add: index_test_doubles_def Let_def)
    show "map_of query_test_vec_doubles ''1'' = Some (binary64 (binary64 (1 / 4) * binary64 (ln 2)))"
      by (simp add: query_test_vec_doubles_def)
    show "0 < binary64 (binary64 (1 / 4) * binary64 (ln 2))" by (rule q)
    show "map_of (vectors index_test_doubles ! 0) ''1''
            = Some (binary64 (binary64 (1 / 7) * binary64 (ln 2)))"
      by (simp add: index_test_doubles_def Let_def)
    show "0 < binary64 (binary64 (1 / 7) * binary64 (ln 2))" by (rule w)
  qed
qed

lemma score_print_doubles:
  "cosine_sim ieee query_test_vec_doubles (vectors index_test_doubles ! Suc 0) = 0"
  by (simp add: query_test_vec_doubles_def index_test_doubles_def cosine_sim_def get_default_def
      ieee_simps binary64_zero Let_def)

lemma ranked_test_doubles:
  "ranked ieee query_test_vec_doubles (vectors index_test_doubles)
     = [(0, cosine_sim ieee query_test_vec_doubles (vectors index_test_doubles ! 0)), (1, 0)]"
proof -
  have v: "vectors index_test_doubles
             = [vectors index_test_doubles ! 0, vectors index_test_doubles ! Suc 0]"
    by (simp add: index_test_doubles_def Let_def)
  have "ranked ieee query_test_vec_doubles
          [vectors index_test_doubles ! 0, vectors index_test_doubles ! Suc 0]
     = [(0, cosine_sim ieee query_test_vec_doubles (vectors index_test_doubles ! 0)), (1, 0)]"
    using score_add_doubles by (simp add: ranked_def score_print_doubles)
  then show ?thesis using v by simp
qed

lemma search_test_doubles:
  "search_internal ieee ''how to add numbers'' (fs world_indexed_doubles) [''vectors'', ''mymod.dat''] k mm
     = Inr (map (\<lambda>(i, s). enrich_result (entries index_test_doubles ! i) i s ''mymod'' mm)
              (slice_to k [(0, cosine_sim ieee query_test_vec_doubles (vectors index_test_doubles ! 0)),
                           (1, 0)]))"
proof -
  have jl: "json_load (fs world_indexed_doubles) [''vectors'', ''mymod.dat'']
              = Inr (document_of index_test_doubles)"
    by (simp add: world_indexed_doubles_def json_load_def)
  have len: "length (vectors index_test_doubles) = length (entries index_test_doubles)"
    by (simp add: index_test_doubles_def Let_def)
  have tk: "tokenize ''how to add numbers'' \<noteq> []" by (simp add: source_tokens)
  have q: "query_vector ieee (vocab index_test_doubles) (idf index_test_doubles)
             (tokenize ''how to add numbers'') = Inr query_test_vec_doubles"
    by (simp add: source_tokens query_test_doubles)
  show ?thesis
    using search_internal_value[OF jl len tk q, of k mm]
    by (simp only: ranked_test_doubles replace_name)
qed

text \<open>
  C5. The two-entry source of the test, vectorized into \<open>vectors/mymod.dat\<close>, with the
  registry read from the manifest \<open>mymod | Example module for tests.\<close> (which maps
  \<open>mymod\<close> to 0): \<open>_search\<close> for \<open>how to add numbers\<close> with \<open>top_k = 1\<close> returns exactly one
  result, of kind \<open>op\<close>, database \<open>mymod\<close>, module id 0, operation \<open>add\<close>, parameters
  \<open>a, b\<close> and signature \<open>0.0(a, b)\<close>. This holds over the reals and in doubles: the
  entry \<open>add\<close> shares the tokens \<open>add\<close> and \<open>numbers\<close> with the query and scores above 0,
  the entry \<open>print\<close> shares none and scores exactly 0.
\<close>

theorem test_search_returns_add:
  "(\<exists>files mm r.
      vectorize_file exact (fs world_test) [''source'', ''mymod.txt''] [''vectors''] = Inr (True, files)
      \<and> fst (load_module_id_map world_test (Some [''source''])) = Inr mm
      \<and> map_of mm ''mymod'' = Some 0
      \<and> search_internal exact ''how to add numbers'' files [''vectors'', ''mymod.dat''] 1 mm = Inr [r]
      \<and> kind r = ''op'' \<and> database r = ''mymod'' \<and> module_id r = Some 0
      \<and> op_name r = ''add'' \<and> params r = [''a'', ''b''] \<and> signature r = ''0.0(a, b)''
      \<and> opcode r = 0 \<and> entry r = entry_add \<and> mod_name r = ''mymod'')
   \<and> (\<exists>files mm r.
      vectorize_file ieee (fs world_test) [''source'', ''mymod.txt''] [''vectors''] = Inr (True, files)
      \<and> fst (load_module_id_map world_test (Some [''source''])) = Inr mm
      \<and> map_of mm ''mymod'' = Some 0
      \<and> search_internal ieee ''how to add numbers'' files [''vectors'', ''mymod.dat''] 1 mm = Inr [r]
      \<and> kind r = ''op'' \<and> database r = ''mymod'' \<and> module_id r = Some 0
      \<and> op_name r = ''add'' \<and> params r = [''a'', ''b''] \<and> signature r = ''0.0(a, b)''
      \<and> opcode r = 0 \<and> entry r = entry_add \<and> mod_name r = ''mymod'')"
proof (rule conjI)
  let ?r = "enrich_result entry_add 0 (cosine_sim exact query_test_vec (vectors index_test ! 0))
              ''mymod'' [(''mymod'', 0)]"
  have v: "vectorize_file exact (fs world_test) [''source'', ''mymod.txt''] [''vectors'']
             = Inr (True, fs world_indexed)"
    using vectorize_test by (simp add: world_test_def world_indexed_def)
  have m: "fst (load_module_id_map world_test (Some [''source''])) = Inr [(''mymod'', 0)]"
    by (simp add: world_test_def load_module_id_map_def manifest_path_def read_text_def
        manifest_test_eval Let_def)
  have s: "search_internal exact ''how to add numbers'' (fs world_indexed) [''vectors'', ''mymod.dat'']
             1 [(''mymod'', 0)] = Inr [?r]"
    by (simp add: search_test slice_to_def index_test_def)
  have f: "kind ?r = ''op''" "database ?r = ''mymod''" "module_id ?r = Some 0"
    "op_name ?r = ''add''" "params ?r = [''a'', ''b'']" "signature ?r = ''0.0(a, b)''"
    "opcode ?r = 0" "entry ?r = entry_add" "mod_name ?r = ''mymod''"
    by (simp_all add: enrich_result_def enrich_test)
  show "\<exists>files mm r.
      vectorize_file exact (fs world_test) [''source'', ''mymod.txt''] [''vectors''] = Inr (True, files)
      \<and> fst (load_module_id_map world_test (Some [''source''])) = Inr mm
      \<and> map_of mm ''mymod'' = Some 0
      \<and> search_internal exact ''how to add numbers'' files [''vectors'', ''mymod.dat''] 1 mm = Inr [r]
      \<and> kind r = ''op'' \<and> database r = ''mymod'' \<and> module_id r = Some 0
      \<and> op_name r = ''add'' \<and> params r = [''a'', ''b''] \<and> signature r = ''0.0(a, b)''
      \<and> opcode r = 0 \<and> entry r = entry_add \<and> mod_name r = ''mymod''"
    by (rule exI[of _ "fs world_indexed"], rule exI[of _ "[(''mymod'', 0)]"], rule exI[of _ ?r])
       (simp add: v m s f)
  let ?d = "enrich_result entry_add 0
              (cosine_sim ieee query_test_vec_doubles (vectors index_test_doubles ! 0))
              ''mymod'' [(''mymod'', 0)]"
  have sd: "search_internal ieee ''how to add numbers'' (fs world_indexed_doubles)
              [''vectors'', ''mymod.dat''] 1 [(''mymod'', 0)] = Inr [?d]"
    by (simp add: search_test_doubles slice_to_def index_test_doubles_def Let_def)
  have fd: "kind ?d = ''op''" "database ?d = ''mymod''" "module_id ?d = Some 0"
    "op_name ?d = ''add''" "params ?d = [''a'', ''b'']" "signature ?d = ''0.0(a, b)''"
    "opcode ?d = 0" "entry ?d = entry_add" "mod_name ?d = ''mymod''"
    by (simp_all add: enrich_result_def enrich_test)
  show "\<exists>files mm r.
      vectorize_file ieee (fs world_test) [''source'', ''mymod.txt''] [''vectors''] = Inr (True, files)
      \<and> fst (load_module_id_map world_test (Some [''source''])) = Inr mm
      \<and> map_of mm ''mymod'' = Some 0
      \<and> search_internal ieee ''how to add numbers'' files [''vectors'', ''mymod.dat''] 1 mm = Inr [r]
      \<and> kind r = ''op'' \<and> database r = ''mymod'' \<and> module_id r = Some 0
      \<and> op_name r = ''add'' \<and> params r = [''a'', ''b''] \<and> signature r = ''0.0(a, b)''
      \<and> opcode r = 0 \<and> entry r = entry_add \<and> mod_name r = ''mymod''"
    by (rule exI[of _ "fs world_indexed_doubles"], rule exI[of _ "[(''mymod'', 0)]"],
        rule exI[of _ ?d])
       (simp add: vectorize_test_doubles m sd fd)
qed


subsection \<open>A query without tokens\<close>







subsection \<open>Round trip of the persisted index\<close>

lemma json_load_dump: "json_load (json_dump files p data) p = Inr (document_of data)"
  by (simp add: json_load_def json_dump_def update_conv')

text \<open>
  C6. When the source file holds at least one entry and the index is built, the
  vectorizer writes it, and what \<open>json.load\<close> then reads from the written file is the
  document of the structure that was in memory: each of its five keys yields the value
  that was written, \<open>vocab\<close> in the same order, \<open>idf\<close>, \<open>vectors\<close>, \<open>entries\<close> and
  \<open>metadata\<close>. The text of the file between \<open>json.dump\<close> and \<open>json.load\<close> is the
  library's part and is not represented.
\<close>

theorem persisted_index_round_trip:
  assumes "read_text files src = Inr content"
      and "records content \<noteq> []"
      and "build_tfidf A (records content) = Inr data"
  shows "\<exists>files' j.
           vectorize_file A files src dir = Inr (True, files')
           \<and> json_load files' (dir @ [replace_txt (path_name src)]) = Inr j
           \<and> j = document_of \<lparr>vocab = vocab data, idf = idf data, vectors = vectors data,
                                entries = records content,
                                metadata = [(''source'', path_name src)]\<rparr>
           \<and> subscript j doc_vocab = Inr (vocab data)
           \<and> subscript j doc_idf = Inr (idf data)
           \<and> subscript j doc_vectors = Inr (vectors data)
           \<and> subscript j doc_entries = Inr (records content)
           \<and> subscript j doc_metadata = Inr [(''source'', path_name src)]"
proof -
  let ?doc = "\<lparr>vocab = vocab data, idf = idf data, vectors = vectors data,
               entries = records content, metadata = [(''source'', path_name src)]\<rparr>"
  let ?out = "dir @ [replace_txt (path_name src)]"
  have v: "vectorize_file A files src dir = Inr (True, json_dump files ?out ?doc)"
    using assms by (simp add: vectorize_file_def Let_def)
  have l: "json_load (json_dump files ?out ?doc) ?out = Inr (document_of ?doc)"
    by (rule json_load_dump)
  show ?thesis
    by (rule exI[of _ "json_dump files ?out ?doc"], rule exI[of _ "document_of ?doc"])
       (simp add: v l subscript_document_of)
qed

theorem persisted_index_round_trip_witness:
  "read_text (fs world_test) [''source'', ''mymod.txt''] = Inr source_text
   \<and> records source_text = [entry_add, entry_print]
   \<and> build_tfidf exact (records source_text)
       = Inr \<lparr>vocab = vocab index_test, idf = idf index_test, vectors = vectors index_test\<rparr>
   \<and> vectorize_file exact (fs world_test) [''source'', ''mymod.txt''] [''vectors'']
       = Inr (True, fs world_indexed)
   \<and> json_load (fs world_indexed) [''vectors'', ''mymod.dat''] = Inr (document_of index_test)
   \<and> subscript (document_of index_test) doc_vocab = Inr (vocab index_test)
   \<and> subscript (document_of index_test) doc_entries = Inr [entry_add, entry_print]
   \<and> subscript (document_of index_test) doc_metadata = Inr [(''source'', ''mymod.txt'')]
   \<and> build_tfidf ieee (records source_text)
       = Inr \<lparr>vocab = vocab index_test_doubles, idf = idf index_test_doubles,
              vectors = vectors index_test_doubles\<rparr>
   \<and> vectorize_file ieee (fs world_test) [''source'', ''mymod.txt''] [''vectors'']
       = Inr (True, fs world_indexed_doubles)
   \<and> json_load (fs world_indexed_doubles) [''vectors'', ''mymod.dat'']
       = Inr (document_of index_test_doubles)
   \<and> subscript (document_of index_test_doubles) doc_idf = Inr (idf index_test_doubles)
   \<and> subscript (document_of index_test_doubles) doc_vectors = Inr (vectors index_test_doubles)"
proof -
  have a: "read_text (fs world_test) [''source'', ''mymod.txt''] = Inr source_text"
    by (simp add: world_test_def read_text_def)
  have b: "records source_text \<noteq> []" by (simp add: source_records)
  have c: "build_tfidf exact (records source_text)
       = Inr \<lparr>vocab = vocab index_test, idf = idf index_test, vectors = vectors index_test\<rparr>"
    by (simp add: source_records build_test)
  have v: "vectorize_file exact (fs world_test) [''source'', ''mymod.txt''] [''vectors'']
             = Inr (True, fs world_indexed)"
    using vectorize_test by (simp add: world_test_def world_indexed_def)
  have n: "path_name [''source'', ''mymod.txt''] = ''mymod.txt''" by (simp add: path_name_def)
  have i: "\<lparr>vocab = vocab index_test, idf = idf index_test, vectors = vectors index_test,
            entries = [entry_add, entry_print], metadata = [(''source'', ''mymod.txt'')]\<rparr>
           = index_test"
    by (simp add: index_test_def)
  from persisted_index_round_trip[OF a b c, of "[''vectors'']"]
  have x: "json_load (fs world_indexed) [''vectors'', ''mymod.dat''] = Inr (document_of index_test)
      \<and> subscript (document_of index_test) doc_vocab = Inr (vocab index_test)
      \<and> subscript (document_of index_test) doc_entries = Inr [entry_add, entry_print]
      \<and> subscript (document_of index_test) doc_metadata = Inr [(''source'', ''mymod.txt'')]"
    by (auto simp: v n replace_name source_records i)
  have c': "build_tfidf ieee (records source_text)
       = Inr \<lparr>vocab = vocab index_test_doubles, idf = idf index_test_doubles,
              vectors = vectors index_test_doubles\<rparr>"
    by (simp add: source_records build_test_doubles)
  have i': "\<lparr>vocab = vocab index_test_doubles, idf = idf index_test_doubles,
             vectors = vectors index_test_doubles,
             entries = [entry_add, entry_print], metadata = [(''source'', ''mymod.txt'')]\<rparr>
           = index_test_doubles"
    by (simp add: index_test_doubles_def Let_def)
  from persisted_index_round_trip[OF a b c', of "[''vectors'']"]
  have x': "json_load (fs world_indexed_doubles) [''vectors'', ''mymod.dat'']
        = Inr (document_of index_test_doubles)
      \<and> subscript (document_of index_test_doubles) doc_idf = Inr (idf index_test_doubles)
      \<and> subscript (document_of index_test_doubles) doc_vectors = Inr (vectors index_test_doubles)"
    by (auto simp: vectorize_test_doubles n replace_name source_records i')
  show ?thesis using a c v x c' vectorize_test_doubles x' by (simp add: source_records)
qed

end
